theory Spec2Isabelle
  imports Complex_Main "HOL-Library.Word" "HOL-Library.FSet" "HOL-Library.Finite_Map"
    "HOL-Library.Log_Nat"
begin

section \<open>Chunk codec (src/chunker.ts)\<close>

text \<open>
  A \<open>Buffer\<close> is a list of bytes. File names, hashes and identifiers are strings.
  Numbers are modelled as integers: sizes, chunk sizes, chunk counts and indices are
  \<open>int\<close>, so negative values sent by a peer are inputs of the model (fractions,
  \<open>NaN\<close> and \<open>Infinity\<close> are not).

  \<open>sha256\<close> is the platform's digest (\<open>crypto.createHash\<close>); it is not part of
  the repository, so every function that calls it takes the digest function as its first
  argument, and every theorem holds for any digest function.

  The file system read by \<open>readFile\<close> and written by \<open>writeFile\<close> is a map
  from paths to contents; reading a path that is not there is the I/O error of the source.
  Record fields carry a short prefix (\<open>c_\<close>, \<open>fi_\<close>, \<open>a_\<close>) because the
  source's records share field names.
\<close>

type_synonym bytes = "8 word list"
type_synonym hashfn = "bytes \<Rightarrow> string"
type_synonym filesystem = "string \<Rightarrow> bytes option"

datatype io_error = ENOENT string

definition DEFAULT_CHUNK_SIZE :: int where
  "DEFAULT_CHUNK_SIZE = 48 * 1024"

record FileInfo =
  fi_filename :: string
  fi_size :: int
  fi_mimeType :: string
  fi_hash :: string
  fi_chunkSize :: int
  fi_totalChunks :: int

record Chunk =
  c_index :: int
  c_data :: bytes
  c_hash :: string

text \<open>
  \<open>Math.ceil(a / b)\<close> on integers with \<open>b \<noteq> 0\<close>, exact for sizes below
  \<open>2^53\<close>. (For \<open>b = 0\<close> the source computes \<open>Infinity\<close> or \<open>NaN\<close>, which
  the integer model does not have; theorems that depend on the value assume \<open>0 < b\<close>.)
\<close>

definition ceil_div :: "int \<Rightarrow> int \<Rightarrow> int" where
  "ceil_div a b = - ((- a) div b)"

text \<open>\<open>s.split(sep).pop()\<close>: the part of \<open>s\<close> after the last separator.\<close>

definition split_pop :: "char \<Rightarrow> string \<Rightarrow> string" where
  "split_pop sep s = rev (takeWhile (\<lambda>c. c \<noteq> sep) (rev s))"

text \<open>
  \<open>toLowerCase\<close>, on ASCII letters, and the table of MIME types by extension (the own
  keys of the object literal of the source).
\<close>

definition toLowerCase :: "string \<Rightarrow> string" where
  "toLowerCase s =
     map (\<lambda>c. let n = (of_char c :: nat) in if 65 \<le> n \<and> n \<le> 90 then char_of (n + 32) else c) s"

definition mimeTypes :: "(string \<times> string) list" where
  "mimeTypes =
    [(''txt'', ''text/plain''),
     (''json'', ''application/json''),
     (''js'', ''text/javascript''),
     (''ts'', ''text/typescript''),
     (''html'', ''text/html''),
     (''css'', ''text/css''),
     (''md'', ''text/markdown''),
     (''png'', ''image/png''),
     (''jpg'', ''image/jpeg''),
     (''jpeg'', ''image/jpeg''),
     (''gif'', ''image/gif''),
     (''webp'', ''image/webp''),
     (''pdf'', ''application/pdf''),
     (''zip'', ''application/zip''),
     (''tar'', ''application/x-tar''),
     (''gz'', ''application/gzip'')]"

definition getFileInfo :: "hashfn \<Rightarrow> filesystem \<Rightarrow> string \<Rightarrow> int \<Rightarrow> io_error + FileInfo" where
  "getFileInfo sha256 fs filePath chunkSize =
     (case fs filePath of
        None \<Rightarrow> Inl (ENOENT filePath)
      | Some data \<Rightarrow>
          let size = int (length data);
              hash = sha256 data;
              totalChunks = ceil_div size chunkSize;
              ext = toLowerCase (split_pop CHR ''.'' filePath);
              name = split_pop CHR ''/'' filePath
          in Inr \<lparr> fi_filename = (if name = [] then ''file'' else name),
                   fi_size = size,
                   fi_mimeType = (case map_of mimeTypes ext of
                                    Some m \<Rightarrow> m
                                  | None \<Rightarrow> ''application/octet-stream''),
                   fi_hash = hash,
                   fi_chunkSize = chunkSize,
                   fi_totalChunks = totalChunks \<rparr>)"

text \<open>
  \<open>Buffer.prototype.subarray(start, end)\<close> of the platform: a negative offset counts
  from the end of the buffer, every offset is clamped to the buffer, and an end before the
  start gives the empty buffer.
\<close>

definition adjustOffset :: "int \<Rightarrow> int \<Rightarrow> int" where
  "adjustOffset offset len =
     (if offset = 0 then 0
      else if offset < 0 then (if offset + len > 0 then offset + len else 0)
      else if offset < len then offset
      else len)"

definition subarray :: "bytes \<Rightarrow> int \<Rightarrow> int \<Rightarrow> bytes" where
  "subarray buf start fin =
     (let srcLength = int (length buf);
          s = adjustOffset start srcLength;
          e = adjustOffset fin srcLength;
          newLength = (if e > s then e - s else 0)
      in take (nat newLength) (drop (nat s) buf))"

definition readChunk :: "hashfn \<Rightarrow> filesystem \<Rightarrow> string \<Rightarrow> int \<Rightarrow> int \<Rightarrow> io_error + Chunk" where
  "readChunk sha256 fs filePath index chunkSize =
     (case fs filePath of
        None \<Rightarrow> Inl (ENOENT filePath)
      | Some data \<Rightarrow>
          let start = index * chunkSize;
              fin = min (start + chunkSize) (int (length data));
              chunkData = subarray data start fin
          in Inr \<lparr> c_index = index, c_data = chunkData, c_hash = sha256 chunkData \<rparr>)"

subsection \<open>ChunkAssembler\<close>

text \<open>
  The assembler's \<open>Map<number, Buffer>\<close> is a finite map; \<open>chunks.size\<close> is the
  number of its keys.
\<close>

record ChunkAssembler =
  a_chunks :: "(int, bytes) fmap"
  a_expectedHash :: string
  a_totalChunks :: int
  a_outputPath :: string

definition newChunkAssembler :: "string \<Rightarrow> string \<Rightarrow> int \<Rightarrow> ChunkAssembler" where
  "newChunkAssembler outputPath expectedHash totalChunks =
     \<lparr> a_chunks = fmempty, a_expectedHash = expectedHash,
       a_totalChunks = totalChunks, a_outputPath = outputPath \<rparr>"

definition chunks_size :: "ChunkAssembler \<Rightarrow> int" where
  "chunks_size a = int (fcard (fmdom (a_chunks a)))"

text \<open>\<open>addChunk\<close> returns the boolean of the source and the assembler after the call.\<close>

definition addChunk :: "hashfn \<Rightarrow> ChunkAssembler \<Rightarrow> int \<Rightarrow> bytes \<Rightarrow> string \<Rightarrow> bool \<times> ChunkAssembler" where
  "addChunk sha256 a index data expectedChunkHash =
     (let actualHash = sha256 data
      in if actualHash \<noteq> expectedChunkHash then (False, a)
         else (True, a\<lparr> a_chunks := fmupd index data (a_chunks a) \<rparr>))"

definition isComplete :: "ChunkAssembler \<Rightarrow> bool" where
  "isComplete a = (chunks_size a = a_totalChunks a)"

text \<open>The loop of \<open>getMissingChunks\<close>, from index \<open>i\<close> with the list built so far.\<close>

function missing_loop :: "ChunkAssembler \<Rightarrow> int \<Rightarrow> int list \<Rightarrow> int list" where
  "missing_loop a i missing =
     (if i < a_totalChunks a
      then missing_loop a (i + 1)
             (if fmlookup (a_chunks a) i = None then missing @ [i] else missing)
      else missing)"
  by pat_completeness auto
termination
  by (relation "measure (\<lambda>(a, i, missing). nat (a_totalChunks a - i))") auto

declare missing_loop.simps [simp del]

definition getMissingChunks :: "ChunkAssembler \<Rightarrow> int list" where
  "getMissingChunks a = missing_loop a 0 []"

text \<open>
  \<open>getProgress\<close> is \<open>Math.round((chunks.size / totalChunks) * 100)\<close>, computed in
  IEEE 754 doubles. A finite double is a rational number \<open>m * 2^e\<close> with
  \<open>|m| < 2^53\<close> and \<open>-1074 \<le> e\<close>. Division and multiplication return the exact
  result rounded to the nearest double, a tie to the one with the even significand:
  \<open>to_double\<close> is that rounding. \<open>floor_log2 x\<close> is the exponent of the leading bit
  of \<open>x > 0\<close>; a normal double keeps the 53 bits from there, a subnormal one the bits
  down to \<open>2^-1074\<close>.

  \<open>chunks.size\<close> is a count and \<open>totalChunks\<close> is a double; the integers of the
  model stand for integers that a double holds (all integers up to \<open>2^53\<close> in
  magnitude). The product cannot overflow: its magnitude is at most \<open>100 * chunks.size\<close>
  when \<open>totalChunks\<close> is a non-zero integer.

  \<open>Math.round\<close> of a double is the nearest integer, a half upwards, with no rounding
  error of its own. With \<open>totalChunks = 0\<close> the source returns \<open>NaN\<close> or
  \<open>Infinity\<close>.
\<close>

datatype number = Num int | NaN | Infinity

definition floor_log2 :: "rat \<Rightarrow> int" where
  "floor_log2 x =
     (let (p, q) = quotient_of x;
          k = bitlen p - bitlen q
      in if 2 powi k \<le> x then k else k - 1)"

definition round_ties_even :: "rat \<Rightarrow> int" where
  "round_ties_even z =
     (let f = \<lfloor>z\<rfloor>;
          d = z - of_int f
      in if d < 1 / 2 then f
         else if 1 / 2 < d then f + 1
         else if even f then f else f + 1)"

definition to_double :: "rat \<Rightarrow> rat" where
  "to_double x =
     (if x = 0 then 0
      else let e = max (floor_log2 \<bar>x\<bar> - 52) (- 1074)
           in sgn x * of_int (round_ties_even (\<bar>x\<bar> / 2 powi e)) * 2 powi e)"

definition double_div :: "rat \<Rightarrow> rat \<Rightarrow> rat" where
  "double_div x y = to_double (x / y)"

definition double_mul :: "rat \<Rightarrow> rat \<Rightarrow> rat" where
  "double_mul x y = to_double (x * y)"

definition Math_round :: "rat \<Rightarrow> int" where
  "Math_round x = \<lfloor>x + 1 / 2\<rfloor>"

definition getProgress :: "ChunkAssembler \<Rightarrow> number" where
  "getProgress a =
     (if a_totalChunks a = 0 then (if chunks_size a = 0 then NaN else Infinity)
      else Num (Math_round
                  (double_mul (double_div (of_int (chunks_size a)) (of_int (a_totalChunks a))) 100)))"

datatype assemble_error =
    MissingChunks "int list"
  | MissingChunk int
  | FileHashMismatch string string

text \<open>The loop of \<open>assemble\<close> that collects the buffers in index order.\<close>

function collect_loop :: "ChunkAssembler \<Rightarrow> int \<Rightarrow> bytes list \<Rightarrow> assemble_error + bytes list" where
  "collect_loop a i buffers =
     (if i < a_totalChunks a
      then (case fmlookup (a_chunks a) i of
              None \<Rightarrow> Inl (MissingChunk i)
            | Some chunk \<Rightarrow> collect_loop a (i + 1) (buffers @ [chunk]))
      else Inr buffers)"
  by pat_completeness auto
termination
  by (relation "measure (\<lambda>(a, i, buffers). nat (a_totalChunks a - i))") auto

declare collect_loop.simps [simp del]

text \<open>
  \<open>assemble\<close> returns its result (\<open>Inr ()\<close> for \<open>success: true\<close>, \<open>Inl e\<close> for
  \<open>success: false\<close> with the error) and the file system after the call.
\<close>

definition assemble :: "hashfn \<Rightarrow> ChunkAssembler \<Rightarrow> filesystem \<Rightarrow> (assemble_error + unit) \<times> filesystem" where
  "assemble sha256 a fs =
     (if \<not> isComplete a then (Inl (MissingChunks (getMissingChunks a)), fs)
      else case collect_loop a 0 [] of
             Inl e \<Rightarrow> (Inl e, fs)
           | Inr buffers \<Rightarrow>
               let combined = concat buffers;
                   actualHash = sha256 combined
               in if actualHash \<noteq> a_expectedHash a
                  then (Inl (FileHashMismatch (a_expectedHash a) actualHash), fs)
                  else (Inr (), fs(a_outputPath a \<mapsto> combined)))"

section \<open>Message protocol (src/protocol.ts)\<close>

text \<open>
  The seven message kinds are the constructors of the payload: a message's \<open>type\<close> is
  the constructor of its payload, so a message whose payload does not have the shape of
  its type is not a value of the model. Record fields carry a prefix per record
  (\<open>o_\<close> offer, \<open>ac_\<close> accept, \<open>rj_\<close> reject, \<open>ck_\<close> chunk, \<open>ak_\<close> ack,
  \<open>cp_\<close> complete, \<open>er_\<close> error, \<open>m_\<close> message, \<open>t_\<close> transfer).
  The fields \<open>secretTTL\<close> and \<open>resumeFrom\<close> of the offer, \<open>resumeFrom\<close> of the
  accept and \<open>resumable\<close> of the transfer are the ones src/transfer.ts reads and writes.

  Error texts that the source builds by interpolation are values of \<open>error_text\<close>.
\<close>

definition OCFT_VERSION :: string where
  "OCFT_VERSION = ''1.0''"

datatype error_text =
    Text string
  | FileTooLarge int
  | AssembleFailed assemble_error

record OfferPayload =
  o_filename :: string
  o_size :: int
  o_mimeType :: string
  o_hash :: string
  o_chunkSize :: int
  o_totalChunks :: int
  o_secret :: "string option"
  o_secretTTL :: "int option"
  o_resumeFrom :: "int option"

record AcceptPayload =
  ac_ready :: bool
  ac_resumeFrom :: "int option"

record RejectPayload =
  rj_reason :: error_text

record ChunkPayload =
  ck_index :: int
  ck_data :: string
  ck_hash :: string

record AckPayload =
  ak_index :: int
  ak_received :: bool
  ak_error :: "error_text option"

record CompletePayload =
  cp_totalChunks :: int
  cp_hash :: string

record ErrorPayload =
  er_code :: string
  er_message :: error_text
  er_recoverable :: bool

datatype Payload =
    OfferP OfferPayload
  | AcceptP AcceptPayload
  | RejectP RejectPayload
  | ChunkP ChunkPayload
  | AckP AckPayload
  | CompleteP CompletePayload
  | ErrorP ErrorPayload

record OCFTMessage =
  m_version :: string
  m_transferId :: string
  m_from :: string
  m_to :: string
  m_timestamp :: int
  m_payload :: Payload

datatype TransferState =
    Pending | Accepted | Rejected | Transferring | Completing | Completed | Failed | Cancelled

datatype Direction = Send | Receive

record TransferInfo =
  t_id :: string
  t_direction :: Direction
  t_state :: TransferState
  t_peerId :: string
  t_filename :: string
  t_size :: int
  t_mimeType :: string
  t_hash :: string
  t_chunkSize :: int
  t_totalChunks :: int
  t_receivedChunks :: "int fset"
  t_startedAt :: int
  t_updatedAt :: int
  t_completedAt :: "int option"
  t_error :: "error_text option"
  t_localPath :: "string option"
  t_resumable :: bool

text \<open>
  \<open>createMessage\<close>; the last argument is the value of \<open>Date.now()\<close>.
\<close>

definition createMessage :: "string \<Rightarrow> string \<Rightarrow> string \<Rightarrow> Payload \<Rightarrow> int \<Rightarrow> OCFTMessage" where
  "createMessage transferId sender receiver payload now =
     \<lparr> m_version = OCFT_VERSION, m_transferId = transferId, m_from = sender, m_to = receiver,
       m_timestamp = now, m_payload = payload \<rparr>"

text \<open>
  The functions of the platform that the protocol and the engine call: the digest,
  Base64 in both directions, UTF-8 in both directions, and JSON in both directions.
  \<open>p_JSON_parse\<close> is \<open>None\<close> where \<open>JSON.parse\<close> throws or the value read is not
  an object with the fields of a message.
\<close>

record Platform =
  p_sha256 :: hashfn
  p_base64_encode :: "bytes \<Rightarrow> string"
  p_base64_decode :: "string \<Rightarrow> bytes"
  p_utf8_encode :: "string \<Rightarrow> bytes"
  p_utf8_decode :: "bytes \<Rightarrow> string"
  p_JSON_stringify :: "OCFTMessage \<Rightarrow> string"
  p_JSON_parse :: "string \<Rightarrow> OCFTMessage option"

definition serialize :: "Platform \<Rightarrow> OCFTMessage \<Rightarrow> string" where
  "serialize P msg = p_JSON_stringify P msg"

text \<open>
  \<open>deserialize\<close>: the parsed value is returned when \<open>version\<close>, \<open>type\<close> and
  \<open>transferId\<close> are truthy; an empty string is falsy, a type is never empty.
\<close>

definition deserialize :: "Platform \<Rightarrow> string \<Rightarrow> OCFTMessage option" where
  "deserialize P d =
     (case p_JSON_parse P d of
        None \<Rightarrow> None
      | Some msg \<Rightarrow> if m_version msg \<noteq> [] \<and> m_transferId msg \<noteq> [] then Some msg else None)"

text \<open>The prefix is the link emoji (four bytes in UTF-8) followed by \<open>OCFT:\<close>.\<close>

definition OCFT_PREFIX :: string where
  "OCFT_PREFIX = [CHR 0xF0, CHR 0x9F, CHR 0x94, CHR 0x97] @ ''OCFT:''"

definition startsWith :: "string \<Rightarrow> string \<Rightarrow> bool" where
  "startsWith text pre = (take (length pre) text = pre)"

definition encodeForChat :: "Platform \<Rightarrow> OCFTMessage \<Rightarrow> string" where
  "encodeForChat P msg =
     (let json = serialize P msg;
          b64 = p_base64_encode P (p_utf8_encode P json)
      in OCFT_PREFIX @ b64)"

definition decodeFromChat :: "Platform \<Rightarrow> string \<Rightarrow> OCFTMessage option" where
  "decodeFromChat P text =
     (if \<not> startsWith text OCFT_PREFIX then None
      else let b64 = drop (length OCFT_PREFIX) text;
               json = p_utf8_decode P (p_base64_decode P b64)
           in deserialize P json)"

section \<open>Transfer manager (src/transfer.ts)\<close>

record TrustedPeer =
  tp_id :: string
  tp_secret :: string
  tp_name :: "string option"
  tp_expiresAt :: "int option"

text \<open>
  The configuration after the constructor has merged the defaults
  (\<open>autoAccept = false\<close>, \<open>trustedPeers = []\<close>, \<open>maxFileSize\<close> 100 MB,
  \<open>chunkSize = DEFAULT_CHUNK_SIZE\<close>) with what the host gave.
\<close>

record TransferManagerConfig =
  cfg_botId :: string
  cfg_secret :: string
  cfg_secretTTL :: "int option"
  cfg_downloadDir :: string
  cfg_autoAccept :: bool
  cfg_trustedPeers :: "TrustedPeer list"
  cfg_maxFileSize :: "int option"
  cfg_chunkSize :: int

text \<open>The notifications of the \<open>EventEmitter\<close>, with the transfer's id.\<close>

datatype Event =
    OfferSent string
  | OfferReceived string
  | TransferAccepted string
  | TransferRejected string
  | TransferStarted string
  | ChunkSent string int
  | ChunkReceived string int number
  | AckReceived string int
  | TransferCompleted string
  | TransferFailed string
  | TransferResumed string

text \<open>
  The state of a \<open>TransferManager\<close>: its configuration and three maps, the calls of
  \<open>send\<close> so far (the host's \<open>sendMessage\<close> receives \<open>encodeForChat\<close> of each
  message), the notifications emitted so far, and the file system. The host's
  \<open>sendMessage\<close> and the listeners of the notifications are taken to return without
  throwing and without calling the manager, and \<open>writeFile\<close> to succeed.
\<close>

record TransferManager =
  config :: TransferManagerConfig
  transfers :: "string \<Rightarrow> TransferInfo option"
  assemblers :: "string \<Rightarrow> ChunkAssembler option"
  filePaths :: "string \<Rightarrow> string option"
  sentMessages :: "(string \<times> OCFTMessage) list"
  events :: "Event list"
  disk :: filesystem

definition newTransferManager :: "TransferManagerConfig \<Rightarrow> filesystem \<Rightarrow> TransferManager" where
  "newTransferManager cfg fs =
     \<lparr> config = cfg, transfers = Map.empty, assemblers = Map.empty, filePaths = Map.empty,
       sentMessages = [], events = [], disk = fs \<rparr>"

text \<open>
  What a call can throw. Every operation returns the exception, if any, together with
  the state at that point: what was assigned before the throw stays assigned.
  \<open>Date.now()\<close> is read once per call and passed as \<open>now\<close>.
\<close>

datatype exn =
    IOError io_error
  | InvalidTransfer
  | TransferNotFound
  | AlreadyCompleted
  | FilePathNotFound

definition send :: "string \<Rightarrow> OCFTMessage \<Rightarrow> TransferManager \<Rightarrow> TransferManager" where
  "send receiver msg s = s\<lparr> sentMessages := sentMessages s @ [(receiver, msg)] \<rparr>"

definition emit :: "Event \<Rightarrow> TransferManager \<Rightarrow> TransferManager" where
  "emit ev s = s\<lparr> events := events s @ [ev] \<rparr>"

definition getPeerSecret :: "TransferManagerConfig \<Rightarrow> string \<Rightarrow> string option" where
  "getPeerSecret cfg peerId =
     (case find (\<lambda>p. tp_id p = peerId) (cfg_trustedPeers cfg) of
        None \<Rightarrow> None
      | Some peer \<Rightarrow> Some (tp_secret peer))"

definition isValidSecret :: "TransferManagerConfig \<Rightarrow> int \<Rightarrow> string option \<Rightarrow> int option \<Rightarrow> bool" where
  "isValidSecret cfg now secret secretTTL =
     (case secret of
        None \<Rightarrow> False
      | Some sec \<Rightarrow>
          if sec = [] then False
          else if sec \<noteq> cfg_secret cfg then False
          else (case secretTTL of
                  None \<Rightarrow> True
                | Some ttl \<Rightarrow> if ttl \<noteq> 0 \<and> now > ttl then False else True))"

definition isPeerTrustValid :: "int \<Rightarrow> TrustedPeer \<Rightarrow> bool" where
  "isPeerTrustValid now peer =
     (case tp_expiresAt peer of
        None \<Rightarrow> True
      | Some e \<Rightarrow> if e = 0 then True else now < e)"

definition sendNextChunk :: "Platform \<Rightarrow> int \<Rightarrow> TransferManager \<Rightarrow> string \<Rightarrow> int \<Rightarrow> exn option \<times> TransferManager" where
  "sendNextChunk P now s transferId index =
     (case (transfers s transferId, filePaths s transferId) of
        (Some transfer, Some filePath) \<Rightarrow>
          if filePath = [] then (None, s)
          else (case readChunk (p_sha256 P) (disk s) filePath index (t_chunkSize transfer) of
                  Inl e \<Rightarrow> (Some (IOError e), s)
                | Inr chunk \<Rightarrow>
                    let chunkMsg = createMessage transferId (cfg_botId (config s)) (t_peerId transfer)
                          (ChunkP \<lparr> ck_index = c_index chunk,
                                    ck_data = p_base64_encode P (c_data chunk),
                                    ck_hash = c_hash chunk \<rparr>) now
                    in (None, emit (ChunkSent transferId index) (send (t_peerId transfer) chunkMsg s)))
      | _ \<Rightarrow> (None, s))"

definition acceptTransfer :: "int \<Rightarrow> TransferManager \<Rightarrow> string \<Rightarrow> int option \<Rightarrow> exn option \<times> TransferManager" where
  "acceptTransfer now s transferId resumeFrom =
     (case transfers s transferId of
        None \<Rightarrow> (Some InvalidTransfer, s)
      | Some transfer \<Rightarrow>
          if t_direction transfer \<noteq> Receive \<or> t_state transfer \<noteq> Pending
          then (Some InvalidTransfer, s)
          else
            let outputPath = cfg_downloadDir (config s) @ ''/'' @ t_filename transfer;
                transfer' = transfer\<lparr> t_state := Accepted, t_updatedAt := now,
                                       t_resumable := True, t_localPath := Some outputPath \<rparr>;
                assembler = newChunkAssembler outputPath (t_hash transfer) (t_totalChunks transfer);
                s' = s\<lparr> transfers := (transfers s)(transferId \<mapsto> transfer'),
                        assemblers := (assemblers s)(transferId \<mapsto> assembler) \<rparr>;
                accept = createMessage transferId (cfg_botId (config s)) (t_peerId transfer)
                           (AcceptP \<lparr> ac_ready = True, ac_resumeFrom = resumeFrom \<rparr>) now
            in (None, emit (TransferAccepted transferId) (send (t_peerId transfer) accept s')))"

definition rejectTransfer :: "int \<Rightarrow> TransferManager \<Rightarrow> string \<Rightarrow> error_text \<Rightarrow> exn option \<times> TransferManager" where
  "rejectTransfer now s transferId reason =
     (case transfers s transferId of
        None \<Rightarrow> (Some InvalidTransfer, s)
      | Some transfer \<Rightarrow>
          if t_direction transfer \<noteq> Receive \<or> t_state transfer \<noteq> Pending
          then (Some InvalidTransfer, s)
          else
            let transfer' = transfer\<lparr> t_state := Rejected, t_updatedAt := now,
                                       t_error := Some reason \<rparr>;
                s' = s\<lparr> transfers := (transfers s)(transferId \<mapsto> transfer') \<rparr>;
                reject = createMessage transferId (cfg_botId (config s)) (t_peerId transfer)
                           (RejectP \<lparr> rj_reason = reason \<rparr>) now
            in (None, emit (TransferRejected transferId) (send (t_peerId transfer) reject s')))"

definition sendFile :: "Platform \<Rightarrow> int \<Rightarrow> string \<Rightarrow> TransferManager \<Rightarrow> string \<Rightarrow> string \<Rightarrow> (exn + string) \<times> TransferManager" where
  "sendFile P now nanoid s peerId filePath =
     (case getFileInfo (p_sha256 P) (disk s) filePath (cfg_chunkSize (config s)) of
        Inl e \<Rightarrow> (Inl (IOError e), s)
      | Inr fileInfo \<Rightarrow>
          let transferId = ''xfer_'' @ nanoid;
              transfer = \<lparr> t_id = transferId, t_direction = Send, t_state = Pending,
                           t_peerId = peerId, t_filename = fi_filename fileInfo,
                           t_size = fi_size fileInfo, t_mimeType = fi_mimeType fileInfo,
                           t_hash = fi_hash fileInfo, t_chunkSize = fi_chunkSize fileInfo,
                           t_totalChunks = fi_totalChunks fileInfo, t_receivedChunks = {||},
                           t_startedAt = now, t_updatedAt = now, t_completedAt = None,
                           t_error = None, t_localPath = Some filePath, t_resumable = False \<rparr>;
              s' = s\<lparr> transfers := (transfers s)(transferId \<mapsto> transfer),
                      filePaths := (filePaths s)(transferId \<mapsto> filePath) \<rparr>;
              offer = createMessage transferId (cfg_botId (config s)) peerId
                        (OfferP \<lparr> o_filename = fi_filename fileInfo, o_size = fi_size fileInfo,
                                  o_mimeType = fi_mimeType fileInfo, o_hash = fi_hash fileInfo,
                                  o_chunkSize = fi_chunkSize fileInfo,
                                  o_totalChunks = fi_totalChunks fileInfo,
                                  o_secret = getPeerSecret (config s) peerId,
                                  o_secretTTL = (case cfg_secretTTL (config s) of
                                                   None \<Rightarrow> None
                                                 | Some ttl \<Rightarrow> if ttl = 0 then None else Some (now + ttl)),
                                  o_resumeFrom = None \<rparr>) now
          in (Inr transferId, emit (OfferSent transferId) (send peerId offer s')))"

subsection \<open>Handlers\<close>

definition handleOffer :: "int \<Rightarrow> TransferManager \<Rightarrow> OCFTMessage \<Rightarrow> OfferPayload \<Rightarrow> exn option \<times> TransferManager" where
  "handleOffer now s msg payload =
     (if (case cfg_maxFileSize (config s) of
            None \<Rightarrow> False
          | Some m \<Rightarrow> if m = 0 then False else o_size payload > m)
      then
        let reject = createMessage (m_transferId msg) (cfg_botId (config s)) (m_from msg)
                       (RejectP \<lparr> rj_reason = FileTooLarge (o_size payload) \<rparr>) now
        in (None, send (m_from msg) reject s)
      else
        let transfer = \<lparr> t_id = m_transferId msg, t_direction = Receive, t_state = Pending,
                         t_peerId = m_from msg, t_filename = o_filename payload,
                         t_size = o_size payload, t_mimeType = o_mimeType payload,
                         t_hash = o_hash payload, t_chunkSize = o_chunkSize payload,
                         t_totalChunks = o_totalChunks payload, t_receivedChunks = {||},
                         t_startedAt = now, t_updatedAt = now, t_completedAt = None,
                         t_error = None, t_localPath = None, t_resumable = False \<rparr>;
            s' = emit (OfferReceived (m_transferId msg))
                   (s\<lparr> transfers := (transfers s)(m_transferId msg \<mapsto> transfer) \<rparr>)
        in if isValidSecret (config s) now (o_secret payload) (o_secretTTL payload)
           then acceptTransfer now s' (m_transferId msg) (o_resumeFrom payload)
           else if cfg_autoAccept (config s)
           then (case find (\<lambda>p. tp_id p = m_from msg) (cfg_trustedPeers (config s)) of
                   None \<Rightarrow> (None, s')
                 | Some trustedPeer \<Rightarrow>
                     if isPeerTrustValid now trustedPeer
                     then acceptTransfer now s' (m_transferId msg) (o_resumeFrom payload)
                     else (None, s'))
           else (None, s'))"

definition handleAccept :: "Platform \<Rightarrow> int \<Rightarrow> TransferManager \<Rightarrow> OCFTMessage \<Rightarrow> AcceptPayload \<Rightarrow> exn option \<times> TransferManager" where
  "handleAccept P now s msg payload =
     (case transfers s (m_transferId msg) of
        None \<Rightarrow> (None, s)
      | Some transfer \<Rightarrow>
          if t_direction transfer \<noteq> Send then (None, s)
          else
            let transfer' = transfer\<lparr> t_state := Transferring, t_updatedAt := now \<rparr>;
                s' = emit (TransferStarted (m_transferId msg))
                       (s\<lparr> transfers := (transfers s)(m_transferId msg \<mapsto> transfer') \<rparr>);
                startIndex = (case ac_resumeFrom payload of None \<Rightarrow> 0 | Some i \<Rightarrow> i)
            in sendNextChunk P now s' (m_transferId msg) startIndex)"

definition handleReject :: "int \<Rightarrow> TransferManager \<Rightarrow> OCFTMessage \<Rightarrow> RejectPayload \<Rightarrow> exn option \<times> TransferManager" where
  "handleReject now s msg payload =
     (case transfers s (m_transferId msg) of
        None \<Rightarrow> (None, s)
      | Some transfer \<Rightarrow>
          let transfer' = transfer\<lparr> t_state := Rejected, t_error := Some (rj_reason payload),
                                     t_updatedAt := now \<rparr>
          in (None, emit (TransferRejected (m_transferId msg))
                      (s\<lparr> transfers := (transfers s)(m_transferId msg \<mapsto> transfer') \<rparr>)))"

definition handleChunk :: "Platform \<Rightarrow> int \<Rightarrow> TransferManager \<Rightarrow> OCFTMessage \<Rightarrow> ChunkPayload \<Rightarrow> exn option \<times> TransferManager" where
  "handleChunk P now s msg payload =
     (case transfers s (m_transferId msg) of
        None \<Rightarrow> (None, s)
      | Some transfer \<Rightarrow>
          if t_direction transfer \<noteq> Receive then (None, s)
          else (case assemblers s (m_transferId msg) of
                  None \<Rightarrow> (None, s)
                | Some assembler \<Rightarrow>
                    let data = p_base64_decode P (ck_data payload);
                        (success, assembler') =
                           addChunk (p_sha256 P) assembler (ck_index payload) data (ck_hash payload);
                        transfer' = transfer\<lparr> t_state := Transferring,
                                      t_receivedChunks :=
                                        (if success then finsert (ck_index payload) (t_receivedChunks transfer)
                                         else t_receivedChunks transfer),
                                      t_updatedAt := now \<rparr>;
                        s' = s\<lparr> transfers := (transfers s)(m_transferId msg \<mapsto> transfer'),
                                assemblers := (assemblers s)(m_transferId msg \<mapsto> assembler') \<rparr>;
                        ack = createMessage (m_transferId msg) (cfg_botId (config s)) (m_from msg)
                                (AckP \<lparr> ak_index = ck_index payload, ak_received = success,
                                        ak_error = (if success then None else Some (Text ''Hash mismatch'')) \<rparr>)
                                now
                    in (None, emit (ChunkReceived (m_transferId msg) (ck_index payload)
                                      (getProgress assembler'))
                                (send (m_from msg) ack s'))))"

definition handleAck :: "Platform \<Rightarrow> int \<Rightarrow> TransferManager \<Rightarrow> OCFTMessage \<Rightarrow> AckPayload \<Rightarrow> exn option \<times> TransferManager" where
  "handleAck P now s msg payload =
     (case transfers s (m_transferId msg) of
        None \<Rightarrow> (None, s)
      | Some transfer \<Rightarrow>
          if t_direction transfer \<noteq> Send then (None, s)
          else if t_state transfer = Completed \<or> t_state transfer = Completing
          then (if ak_index payload = - 1
                then
                  let transfer' = transfer\<lparr> t_state := Completed, t_completedAt := Some now \<rparr>
                  in (None, emit (TransferCompleted (m_transferId msg))
                              (s\<lparr> transfers := (transfers s)(m_transferId msg \<mapsto> transfer') \<rparr>))
                else (None, s))
          else if \<not> ak_received payload
          then sendNextChunk P now s (m_transferId msg) (ak_index payload)
          else
            let transfer' = transfer\<lparr> t_receivedChunks := finsert (ak_index payload) (t_receivedChunks transfer),
                                       t_updatedAt := now \<rparr>;
                s' = emit (AckReceived (m_transferId msg) (ak_index payload))
                       (s\<lparr> transfers := (transfers s)(m_transferId msg \<mapsto> transfer') \<rparr>);
                nextIndex = ak_index payload + 1
            in if nextIndex < t_totalChunks transfer
               then sendNextChunk P now s' (m_transferId msg) nextIndex
               else
                 let transfer'' = transfer'\<lparr> t_state := Completing \<rparr>;
                     complete = createMessage (m_transferId msg) (cfg_botId (config s)) (t_peerId transfer)
                                  (CompleteP \<lparr> cp_totalChunks = t_totalChunks transfer,
                                               cp_hash = t_hash transfer \<rparr>) now
                 in (None, send (t_peerId transfer) complete
                             (s'\<lparr> transfers := (transfers s')(m_transferId msg \<mapsto> transfer'') \<rparr>)))"

definition handleComplete :: "Platform \<Rightarrow> int \<Rightarrow> TransferManager \<Rightarrow> OCFTMessage \<Rightarrow> CompletePayload \<Rightarrow> exn option \<times> TransferManager" where
  "handleComplete P now s msg payload =
     (case transfers s (m_transferId msg) of
        None \<Rightarrow> (None, s)
      | Some transfer \<Rightarrow>
          if t_direction transfer \<noteq> Receive then (None, s)
          else (case assemblers s (m_transferId msg) of
                  None \<Rightarrow> (None, s)
                | Some assembler \<Rightarrow>
                    let (result, fs') = assemble (p_sha256 P) assembler (disk s)
                    in (case result of
                          Inr u \<Rightarrow>
                            let transfer' = transfer\<lparr> t_state := Completed, t_completedAt := Some now,
                                                       t_updatedAt := now \<rparr>;
                                s' = emit (TransferCompleted (m_transferId msg))
                                       (s\<lparr> transfers := (transfers s)(m_transferId msg \<mapsto> transfer'),
                                            disk := fs' \<rparr>);
                                ack = createMessage (m_transferId msg) (cfg_botId (config s)) (m_from msg)
                                        (AckP \<lparr> ak_index = - 1, ak_received = True, ak_error = None \<rparr>) now
                            in (None, send (m_from msg) ack s')
                        | Inl e \<Rightarrow>
                            let transfer' = transfer\<lparr> t_state := Failed,
                                                       t_error := Some (AssembleFailed e),
                                                       t_updatedAt := now \<rparr>;
                                s' = emit (TransferFailed (m_transferId msg))
                                       (s\<lparr> transfers := (transfers s)(m_transferId msg \<mapsto> transfer'),
                                            disk := fs' \<rparr>);
                                ack = createMessage (m_transferId msg) (cfg_botId (config s)) (m_from msg)
                                        (AckP \<lparr> ak_index = - 1, ak_received = False,
                                                ak_error = Some (AssembleFailed e) \<rparr>) now
                            in (None, send (m_from msg) ack s'))))"

definition handleError :: "int \<Rightarrow> TransferManager \<Rightarrow> OCFTMessage \<Rightarrow> ErrorPayload \<Rightarrow> exn option \<times> TransferManager" where
  "handleError now s msg payload =
     (case transfers s (m_transferId msg) of
        None \<Rightarrow> (None, s)
      | Some transfer \<Rightarrow>
          let transfer' = transfer\<lparr> t_state := Failed, t_error := Some (er_message payload),
                                     t_updatedAt := now \<rparr>
          in (None, emit (TransferFailed (m_transferId msg))
                      (s\<lparr> transfers := (transfers s)(m_transferId msg \<mapsto> transfer') \<rparr>)))"

subsection \<open>handleMessage\<close>

text \<open>
  The part of \<open>handleMessage\<close> after decoding: the check of the addressee and the
  \<open>switch\<close> on the type. The result is the boolean returned, or the exception thrown
  by a handler.
\<close>

definition handleDecoded :: "Platform \<Rightarrow> int \<Rightarrow> TransferManager \<Rightarrow> OCFTMessage \<Rightarrow> (exn + bool) \<times> TransferManager" where
  "handleDecoded P now s msg =
     (if m_to msg \<noteq> cfg_botId (config s) then (Inr False, s)
      else
        let (thrown, s') =
              (case m_payload msg of
                 OfferP p \<Rightarrow> handleOffer now s msg p
               | AcceptP p \<Rightarrow> handleAccept P now s msg p
               | RejectP p \<Rightarrow> handleReject now s msg p
               | ChunkP p \<Rightarrow> handleChunk P now s msg p
               | AckP p \<Rightarrow> handleAck P now s msg p
               | CompleteP p \<Rightarrow> handleComplete P now s msg p
               | ErrorP p \<Rightarrow> handleError now s msg p)
        in (case thrown of None \<Rightarrow> (Inr True, s') | Some e \<Rightarrow> (Inl e, s')))"

definition handleMessage :: "Platform \<Rightarrow> int \<Rightarrow> TransferManager \<Rightarrow> string \<Rightarrow> string \<Rightarrow> (exn + bool) \<times> TransferManager" where
  "handleMessage P now s fromId text =
     (if \<not> startsWith text OCFT_PREFIX then (Inr False, s)
      else (case decodeFromChat P text of
              None \<Rightarrow> (Inr False, s)
            | Some msg \<Rightarrow> handleDecoded P now s msg))"

subsection \<open>Resuming\<close>

text \<open>\<open>Math.max(...Array.from(receivedChunks), -1)\<close>.\<close>

definition lastIndex :: "int fset \<Rightarrow> int" where
  "lastIndex rc = fMax (finsert (- 1) rc)"

definition resumeTransfer :: "int \<Rightarrow> TransferManager \<Rightarrow> string \<Rightarrow> exn option \<times> TransferManager" where
  "resumeTransfer now s transferId =
     (case transfers s transferId of
        None \<Rightarrow> (Some TransferNotFound, s)
      | Some transfer \<Rightarrow>
          if t_state transfer = Completed then (Some AlreadyCompleted, s)
          else if t_direction transfer = Receive
          then
            let lastChunk = lastIndex (t_receivedChunks transfer);
                s' = s\<lparr> transfers := (transfers s)(transferId \<mapsto> transfer\<lparr> t_state := Pending \<rparr>) \<rparr>
            in acceptTransfer now s' transferId (Some (lastChunk + 1))
          else
            let lastAcked = lastIndex (t_receivedChunks transfer)
            in (case filePaths s transferId of
                  None \<Rightarrow> (Some FilePathNotFound, s)
                | Some filePath \<Rightarrow>
                    if filePath = [] then (Some FilePathNotFound, s)
                    else
                      let offer = createMessage transferId (cfg_botId (config s)) (t_peerId transfer)
                            (OfferP \<lparr> o_filename = t_filename transfer, o_size = t_size transfer,
                                      o_mimeType = t_mimeType transfer, o_hash = t_hash transfer,
                                      o_chunkSize = t_chunkSize transfer,
                                      o_totalChunks = t_totalChunks transfer,
                                      o_secret = getPeerSecret (config s) (t_peerId transfer),
                                      o_secretTTL = (case cfg_secretTTL (config s) of
                                                       None \<Rightarrow> None
                                                     | Some ttl \<Rightarrow> if ttl = 0 then None else Some (now + ttl)),
                                      o_resumeFrom = Some (lastAcked + 1) \<rparr>) now;
                          s' = s\<lparr> transfers := (transfers s)(transferId \<mapsto> transfer\<lparr> t_state := Pending \<rparr>) \<rparr>
                      in (None, emit (TransferResumed transferId) (send (t_peerId transfer) offer s'))))"

section \<open>Scenarios\<close>

subsection \<open>Feeding an assembler from a file\<close>

text \<open>
  The round trip of the codec: \<open>readChunk\<close> is called for each index of a list and
  the chunk it returns is handed to \<open>addChunk\<close> with the hash it carries. The result is
  \<open>None\<close> when a read fails or a chunk is refused.
\<close>

fun feedChunks :: "hashfn \<Rightarrow> filesystem \<Rightarrow> string \<Rightarrow> int \<Rightarrow> int list \<Rightarrow> ChunkAssembler \<Rightarrow> ChunkAssembler option" where
  "feedChunks sha256 fs filePath chunkSize [] a = Some a"
| "feedChunks sha256 fs filePath chunkSize (i # rest) a =
     (case readChunk sha256 fs filePath i chunkSize of
        Inl e \<Rightarrow> None
      | Inr c \<Rightarrow>
          (case addChunk sha256 a (c_index c) (c_data c) (c_hash c) of
             (True, a') \<Rightarrow> feedChunks sha256 fs filePath chunkSize rest a'
           | (False, a') \<Rightarrow> None))"

subsection \<open>Delivering messages\<close>

text \<open>
  A list of decoded messages, each with the time of its arrival, handed to the manager one
  after the other; the results of the calls are collected.
\<close>

fun deliver :: "Platform \<Rightarrow> TransferManager \<Rightarrow> (int \<times> OCFTMessage) list \<Rightarrow> (exn + bool) list \<times> TransferManager" where
  "deliver P s [] = ([], s)"
| "deliver P s ((now, msg) # rest) =
     (let (r, s') = handleDecoded P now s msg;
          (rs, s'') = deliver P s' rest
      in (r # rs, s''))"

subsection \<open>Sequences of calls\<close>

text \<open>
  What the host can do with a manager: hand it a message (\<open>handleMessage\<close> with a
  text that decodes to the message; a text that does not decode changes nothing), or call
  \<open>sendFile\<close>, \<open>acceptTransfer\<close>, \<open>rejectTransfer\<close> or \<open>resumeTransfer\<close>.
  Each call carries the time at which it is made; \<open>sendFile\<close> also carries the random
  part of the new transfer id. \<open>step\<close> is the state after a call, whether it returned
  or threw, and \<open>run\<close> makes a list of calls from a state.
\<close>

datatype Call =
    HandleMessage int OCFTMessage
  | SendFile int string string string
  | AcceptTransfer int string "int option"
  | RejectTransfer int string error_text
  | ResumeTransfer int string

definition step :: "Platform \<Rightarrow> TransferManager \<Rightarrow> Call \<Rightarrow> TransferManager" where
  "step P s c =
     (case c of
        HandleMessage now msg \<Rightarrow> snd (handleDecoded P now s msg)
      | SendFile now nanoid peerId filePath \<Rightarrow> snd (sendFile P now nanoid s peerId filePath)
      | AcceptTransfer now transferId resumeFrom \<Rightarrow> snd (acceptTransfer now s transferId resumeFrom)
      | RejectTransfer now transferId reason \<Rightarrow> snd (rejectTransfer now s transferId reason)
      | ResumeTransfer now transferId \<Rightarrow> snd (resumeTransfer now s transferId))"

text \<open>
  Well-formed input. An index is in range for a transfer when it lies in
  \<open>[0, totalChunks)\<close> of the transfer the message names. An ack counts when
  \<open>handleAck\<close> records its index: it has \<open>received = true\<close> and the transfer is of
  direction \<open>send\<close> and neither completing nor completed. A call is well-formed when
  an offer announces a non-negative number of chunks, a chunk carries an index in range,
  an ack that counts carries an index in range, and \<open>sendFile\<close> finds a positive
  chunk size in the configuration.
\<close>

definition index_in_range :: "TransferManager \<Rightarrow> string \<Rightarrow> int \<Rightarrow> bool" where
  "index_in_range s transferId i =
     (case transfers s transferId of
        None \<Rightarrow> True
      | Some t \<Rightarrow> 0 \<le> i \<and> i < t_totalChunks t)"

definition ack_counts :: "TransferManager \<Rightarrow> string \<Rightarrow> AckPayload \<Rightarrow> bool" where
  "ack_counts s transferId p =
     (case transfers s transferId of
        None \<Rightarrow> False
      | Some t \<Rightarrow> ak_received p \<and> t_direction t = Send
                  \<and> t_state t \<noteq> Completed \<and> t_state t \<noteq> Completing)"

definition call_ok :: "TransferManager \<Rightarrow> Call \<Rightarrow> bool" where
  "call_ok s c =
     (case c of
        HandleMessage now msg \<Rightarrow>
          (case m_payload msg of
             OfferP p \<Rightarrow> 0 \<le> o_totalChunks p
           | ChunkP p \<Rightarrow> index_in_range s (m_transferId msg) (ck_index p)
           | AckP p \<Rightarrow> \<not> ack_counts s (m_transferId msg) p
                        \<or> index_in_range s (m_transferId msg) (ak_index p)
           | _ \<Rightarrow> True)
      | SendFile now nanoid peerId filePath \<Rightarrow> 0 < cfg_chunkSize (config s)
      | _ \<Rightarrow> True)"

fun run :: "Platform \<Rightarrow> TransferManager \<Rightarrow> Call list \<Rightarrow> TransferManager" where
  "run P s [] = s"
| "run P s (c # cs) = run P (step P s c) cs"

fun run_ok :: "Platform \<Rightarrow> TransferManager \<Rightarrow> Call list \<Rightarrow> bool" where
  "run_ok P s [] = True"
| "run_ok P s (c # cs) = (call_ok s c \<and> run_ok P (step P s c) cs)"

text \<open>The invariant: every recorded index of every transfer is in range.\<close>

definition chunks_in_range :: "TransferInfo \<Rightarrow> bool" where
  "chunks_in_range t =
     (0 \<le> t_totalChunks t \<and> fBall (t_receivedChunks t) (\<lambda>i. 0 \<le> i \<and> i < t_totalChunks t))"

definition all_in_range :: "TransferManager \<Rightarrow> bool" where
  "all_in_range s = (\<forall>transferId t. transfers s transferId = Some t \<longrightarrow> chunks_in_range t)"

section \<open>Example data\<close>

subsection \<open>Platform, assemblers and a node\<close>

text \<open>
  A concrete digest function for the closed examples (the theorems hold for every digest
  function): it writes each byte as one character.
\<close>

definition digest0 :: hashfn where
  "digest0 bs = map (\<lambda>b. char_of (unat b)) bs"

definition two_of_three :: ChunkAssembler where
  "two_of_three = \<lparr> a_chunks = fmupd 1 [3, 4] (fmupd 0 [1, 2] fmempty), a_expectedHash = digest0 [1, 2, 3, 4, 5],
       a_totalChunks = 3, a_outputPath = ''out/a.txt'' \<rparr>"

definition one_of_three :: ChunkAssembler where
  "one_of_three = \<lparr> a_chunks = fmupd 1 [3, 4] fmempty, a_expectedHash = digest0 [1, 2, 3, 4, 5],
       a_totalChunks = 3, a_outputPath = ''out/a.txt'' \<rparr>"

text \<open>
  A concrete platform for the closed examples: the digest above, bytes written as
  characters for Base64 and UTF-8, and a JSON reader that knows one text, which it reads
  as an ack addressed to \<open>carol\<close>.
\<close>

definition stray_message :: OCFTMessage where
  "stray_message = createMessage ''xfer_abc'' ''bob'' ''carol''
     (AckP \<lparr> ak_index = 0, ak_received = True, ak_error = None \<rparr>) 7"

definition platform0 :: Platform where
  "platform0 =
     \<lparr> p_sha256 = digest0,
       p_base64_encode = map (\<lambda>b. char_of (unat b)),
       p_base64_decode = map (\<lambda>c. of_nat (of_char c)),
       p_utf8_encode = map (\<lambda>c. of_nat (of_char c)),
       p_utf8_decode = map (\<lambda>b. char_of (unat b)),
       p_JSON_stringify = (\<lambda>m. ''{}''),
       p_JSON_parse = (\<lambda>d. if d = ''stray'' then Some stray_message else None) \<rparr>"

definition config0 :: TransferManagerConfig where
  "config0 =
     \<lparr> cfg_botId = ''alice'', cfg_secret = ''s3cret'', cfg_secretTTL = None,
       cfg_downloadDir = ''dl'', cfg_autoAccept = False, cfg_trustedPeers = [],
       cfg_maxFileSize = Some (100 * 1024 * 1024), cfg_chunkSize = 2 \<rparr>"

definition disk0 :: filesystem where
  "disk0 = [''d/a.txt'' \<mapsto> [1, 2, 3, 4, 5]]"

definition alice0 :: TransferManager where
  "alice0 = newTransferManager config0 disk0"

subsection \<open>A transfer that the node sends\<close>

text \<open>
  The node \<open>alice\<close> offers a file of five bytes (three chunks of size two) to
  \<open>bob\<close>; \<open>bob\<close> answers with an error, an accept, or acks.
\<close>

definition alice_offered :: TransferManager where
  "alice_offered = snd (sendFile platform0 1 ''abc'' alice0 ''bob'' ''d/a.txt'')"

definition error_from_bob :: OCFTMessage where
  "error_from_bob = createMessage ''xfer_abc'' ''bob'' ''alice''
     (ErrorP \<lparr> er_code = ''E1'', er_message = Text ''gone'', er_recoverable = False \<rparr>) 2"

definition alice_failed :: TransferManager where
  "alice_failed = snd (handleDecoded platform0 2 alice_offered error_from_bob)"

definition accept_from_bob :: OCFTMessage where
  "accept_from_bob = createMessage ''xfer_abc'' ''bob'' ''alice''
     (AcceptP \<lparr> ac_ready = True, ac_resumeFrom = None \<rparr>) 3"

definition ack_from_bob :: "int \<Rightarrow> OCFTMessage" where
  "ack_from_bob i = createMessage ''xfer_abc'' ''bob'' ''alice''
     (AckP \<lparr> ak_index = i, ak_received = True, ak_error = None \<rparr>) 4"

definition transfer_abc :: TransferInfo where
  "transfer_abc =
     \<lparr> t_id = ''xfer_abc'', t_direction = Send, t_state = Pending, t_peerId = ''bob'',
       t_filename = ''a.txt'', t_size = 5, t_mimeType = ''text/plain'',
       t_hash = digest0 [1, 2, 3, 4, 5], t_chunkSize = 2, t_totalChunks = 3,
       t_receivedChunks = {||}, t_startedAt = 1, t_updatedAt = 1, t_completedAt = None,
       t_error = None, t_localPath = Some ''d/a.txt'', t_resumable = False \<rparr>"

text \<open>A second run: a file of one chunk, accepted and acknowledged.\<close>

definition disk1 :: filesystem where
  "disk1 = [''d/b.txt'' \<mapsto> [7, 8]]"

definition transfer_one :: TransferInfo where
  "transfer_one =
     \<lparr> t_id = ''xfer_one'', t_direction = Send, t_state = Pending, t_peerId = ''bob'',
       t_filename = ''b.txt'', t_size = 2, t_mimeType = ''text/plain'',
       t_hash = digest0 [7, 8], t_chunkSize = 2, t_totalChunks = 1,
       t_receivedChunks = {||}, t_startedAt = 1, t_updatedAt = 1, t_completedAt = None,
       t_error = None, t_localPath = Some ''d/b.txt'', t_resumable = False \<rparr>"

definition one_messages :: "(int \<times> OCFTMessage) list" where
  "one_messages =
     [(2, createMessage ''xfer_one'' ''bob'' ''alice''
            (AcceptP \<lparr> ac_ready = True, ac_resumeFrom = None \<rparr>) 2),
      (3, createMessage ''xfer_one'' ''bob'' ''alice''
            (AckP \<lparr> ak_index = 0, ak_received = True, ak_error = None \<rparr>) 3)]"

definition alice_completing :: TransferManager where
  "alice_completing =
     snd (deliver platform0
            (snd (sendFile platform0 1 ''one'' (newTransferManager config0 disk1) ''bob'' ''d/b.txt''))
            one_messages)"

definition final_ack :: "int \<Rightarrow> OCFTMessage" where
  "final_ack i = createMessage ''xfer_one'' ''bob'' ''alice''
     (AckP \<lparr> ak_index = i, ak_received = True, ak_error = None \<rparr>) 8"

text \<open>A third run: an empty file, offered and accepted.\<close>

definition disk2 :: filesystem where
  "disk2 = [''d/e.txt'' \<mapsto> []]"

definition transfer_nil :: TransferInfo where
  "transfer_nil =
     \<lparr> t_id = ''xfer_nil'', t_direction = Send, t_state = Pending, t_peerId = ''bob'',
       t_filename = ''e.txt'', t_size = 0, t_mimeType = ''text/plain'',
       t_hash = digest0 [], t_chunkSize = 2, t_totalChunks = 0,
       t_receivedChunks = {||}, t_startedAt = 1, t_updatedAt = 1, t_completedAt = None,
       t_error = None, t_localPath = Some ''d/e.txt'', t_resumable = False \<rparr>"

definition alice_offered_nil :: TransferManager where
  "alice_offered_nil =
     snd (sendFile platform0 1 ''nil'' (newTransferManager config0 disk2) ''bob'' ''d/e.txt'')"

definition accept_nil :: OCFTMessage where
  "accept_nil = createMessage ''xfer_nil'' ''bob'' ''alice''
     (AcceptP \<lparr> ac_ready = True, ac_resumeFrom = None \<rparr>) 2"

text \<open>
  The same file in the other direction: the messages that a sender of an empty file
  emits (offer, chunk 0 without data, complete), addressed to \<open>alice\<close>.
\<close>

definition offer_nil :: OCFTMessage where
  "offer_nil = createMessage ''xfer_nil'' ''bob'' ''alice''
     (OfferP \<lparr> o_filename = ''e.txt'', o_size = 0, o_mimeType = ''text/plain'',
               o_hash = digest0 [], o_chunkSize = 2, o_totalChunks = 0,
               o_secret = Some ''s3cret'', o_secretTTL = None, o_resumeFrom = None \<rparr>) 1"

definition chunk_nil :: OCFTMessage where
  "chunk_nil = createMessage ''xfer_nil'' ''bob'' ''alice''
     (ChunkP \<lparr> ck_index = 0, ck_data = p_base64_encode platform0 [], ck_hash = digest0 [] \<rparr>) 2"

definition complete_nil :: OCFTMessage where
  "complete_nil = createMessage ''xfer_nil'' ''bob'' ''alice''
     (CompleteP \<lparr> cp_totalChunks = 0, cp_hash = digest0 [] \<rparr>) 3"

subsection \<open>A transfer that the node receives\<close>

text \<open>An offer that \<open>bob\<close> sends to \<open>alice\<close>, with a secret and a TTL.\<close>

definition offer_b1 :: "string option \<Rightarrow> int option \<Rightarrow> OfferPayload" where
  "offer_b1 sec ttl =
     \<lparr> o_filename = ''b.bin'', o_size = 3, o_mimeType = ''application/octet-stream'',
       o_hash = digest0 [7, 8, 9], o_chunkSize = 2, o_totalChunks = 2,
       o_secret = sec, o_secretTTL = ttl, o_resumeFrom = None \<rparr>"

definition offer_from_bob :: "string option \<Rightarrow> int option \<Rightarrow> OCFTMessage" where
  "offer_from_bob sec ttl =
     createMessage ''xfer_b1'' ''bob'' ''alice'' (OfferP (offer_b1 sec ttl)) 990"

text \<open>
  Chunks that \<open>bob\<close> sends for the offered transfer, each with the digest of its data.
\<close>

definition chunk_from_bob :: "int \<Rightarrow> OCFTMessage" where
  "chunk_from_bob i = createMessage ''xfer_b1'' ''bob'' ''alice''
     (ChunkP \<lparr> ck_index = i, ck_data = ''x'',
               ck_hash = p_sha256 platform0 (p_base64_decode platform0 ''x'') \<rparr>) 1001"

definition in_range_calls :: "Call list" where
  "in_range_calls =
     [HandleMessage 1000 (offer_from_bob (Some ''s3cret'') None),
      HandleMessage 1001 (chunk_from_bob 0),
      HandleMessage 1002 (chunk_from_bob 1)]"

definition overrun_calls :: "Call list" where
  "overrun_calls = in_range_calls @ [HandleMessage 1003 (chunk_from_bob 2)]"

section \<open>Properties of the chunk codec\<close>

subsection \<open>Slices and loops\<close>

lemma adjustOffset_id: "0 \<le> x \<Longrightarrow> x \<le> len \<Longrightarrow> adjustOffset x len = x"
  by (simp add: adjustOffset_def)

lemma adjustOffset_clamp: "0 \<le> len \<Longrightarrow> len \<le> x \<Longrightarrow> adjustOffset x len = len"
  by (auto simp add: adjustOffset_def)

lemma subarray_chunk:
  assumes "0 \<le> index" "0 < chunkSize"
  shows "subarray data (index * chunkSize) (min (index * chunkSize + chunkSize) (int (length data)))
         = take (nat chunkSize) (drop (nat (index * chunkSize)) data)"
proof (cases "index * chunkSize \<le> int (length data)")
  case True
  have s0: "0 \<le> index * chunkSize" using assms by simp
  let ?fin = "min (index * chunkSize + chunkSize) (int (length data))"
  have f: "0 \<le> ?fin" "?fin \<le> int (length data)" "index * chunkSize \<le> ?fin"
    using s0 assms True by auto
  show ?thesis
    using True s0 f assms
    by (auto simp add: subarray_def Let_def adjustOffset_id min_def nat_diff_distrib nat_add_distrib)
next
  case False
  then have "int (length data) \<le> index * chunkSize" by simp
  moreover have "min (index * chunkSize + chunkSize) (int (length data)) = int (length data)"
    using False assms by auto
  ultimately show ?thesis
    by (simp add: subarray_def Let_def adjustOffset_clamp)
qed

lemma take_drop_nth_range:
  "take n (drop lo xs) = map (nth xs) [lo ..< min (lo + n) (length xs)]"
  by (rule nth_equalityI) auto

lemma upto_map_int: "[0 .. int n - 1] = map int [0 ..< n]"
proof (induction n)
  case 0 show ?case by simp
next
  case (Suc n)
  have "[0 .. int (Suc n) - 1] = [0 .. int n - 1] @ [int n]"
    using upto_rec2 [of 0 "int n"] by simp
  then show ?case using Suc by simp
qed

lemma concat_chunks_take:
  "concat (map (\<lambda>k. take c (drop (k * c) xs)) [0 ..< n]) = take (n * c) xs"
proof (induction n)
  case 0 show ?case by simp
next
  case (Suc n)
  have "take (n * c) xs @ take c (drop (n * c) xs) = take (n * c + c) xs"
    by (simp add: take_add)
  then show ?case using Suc by (simp add: add.commute)
qed

lemma readChunk_nonneg:
  assumes "fs filePath = Some bytes" "0 \<le> index" "0 < chunkSize"
  shows "readChunk sha256 fs filePath index chunkSize =
           Inr \<lparr> c_index = index,
                 c_data = take (nat chunkSize) (drop (nat (index * chunkSize)) bytes),
                 c_hash = sha256 (take (nat chunkSize) (drop (nat (index * chunkSize)) bytes)) \<rparr>"
  using assms by (simp add: readChunk_def Let_def subarray_chunk)

lemma feedChunks_fold:
  assumes "fs filePath = Some bytes" "0 < chunkSize" "\<forall>i \<in> set idxs. 0 \<le> i"
  shows "feedChunks sha256 fs filePath chunkSize idxs a =
           Some (a\<lparr> a_chunks :=
                   fold (\<lambda>i. fmupd i (take (nat chunkSize) (drop (nat (i * chunkSize)) bytes)))
                     idxs (a_chunks a) \<rparr>)"
  using assms(3)
proof (induction idxs arbitrary: a)
  case Nil
  show ?case by simp
next
  case (Cons i rest)
  then have i: "0 \<le> i" and rest: "\<forall>j \<in> set rest. 0 \<le> j" by simp_all
  show ?case
    using Cons.IH [OF rest] readChunk_nonneg [of fs filePath bytes i chunkSize sha256] assms(1,2) i
    by (simp add: addChunk_def Let_def)
qed

lemma fmlookup_fold_fmupd:
  "fmlookup (fold (\<lambda>i. fmupd i (f i)) idxs m) j =
     (if j \<in> set idxs then Some (f j) else fmlookup m j)"
  by (induction idxs arbitrary: m) auto

lemma fmdom_fold_fmupd:
  "fmdom (fold (\<lambda>i. fmupd i (f i)) idxs m) = fset_of_list idxs |\<union>| fmdom m"
  by (induction idxs arbitrary: m) auto

lemma collect_loop_all:
  assumes "\<forall>j. i \<le> j \<and> j < a_totalChunks a \<longrightarrow> fmlookup (a_chunks a) j = Some (f j)"
  shows "collect_loop a i buffers = Inr (buffers @ map f [i .. a_totalChunks a - 1])"
  using assms
proof (induction a i buffers rule: collect_loop.induct)
  case (1 a i buffers)
  show ?case
  proof (cases "i < a_totalChunks a")
    case True
    then have here: "fmlookup (a_chunks a) i = Some (f i)" using "1.prems" by simp
    have "collect_loop a (i + 1) (buffers @ [f i]) =
            Inr ((buffers @ [f i]) @ map f [i + 1 .. a_totalChunks a - 1])"
      using "1.IH" [OF True here] "1.prems" by simp
    moreover have "[i .. a_totalChunks a - 1] = i # [i + 1 .. a_totalChunks a - 1]"
      using True by (simp add: upto_rec1)
    ultimately show ?thesis
      using True here by (subst collect_loop.simps) simp
  next
    case False
    then show ?thesis by (subst collect_loop.simps) simp
  qed
qed

lemma collect_loop_Inr:
  "collect_loop a i buffers = Inr bs \<Longrightarrow>
     \<exists>new. bs = buffers @ new \<and> map Some new = map (fmlookup (a_chunks a)) [i .. a_totalChunks a - 1]"
proof (induction a i buffers rule: collect_loop.induct)
  case (1 a i buffers)
  show ?case
  proof (cases "i < a_totalChunks a")
    case True
    then obtain chunk where here: "fmlookup (a_chunks a) i = Some chunk"
      and rec: "collect_loop a (i + 1) (buffers @ [chunk]) = Inr bs"
      using "1.prems" by (subst (asm) collect_loop.simps) (auto split: option.splits)
    from "1.IH" [OF True here rec] obtain new where
      new: "bs = (buffers @ [chunk]) @ new"
           "map Some new = map (fmlookup (a_chunks a)) [i + 1 .. a_totalChunks a - 1]"
      by blast
    have "[i .. a_totalChunks a - 1] = i # [i + 1 .. a_totalChunks a - 1]"
      using True by (simp add: upto_rec1)
    then have "map Some (chunk # new) = map (fmlookup (a_chunks a)) [i .. a_totalChunks a - 1]"
      using new(2) here by simp
    moreover have "bs = buffers @ (chunk # new)" using new(1) by simp
    ultimately show ?thesis by blast
  next
    case False
    then have "bs = buffers" using "1.prems" by (subst (asm) collect_loop.simps) simp
    moreover have "[i .. a_totalChunks a - 1] = []" using False by simp
    ultimately show ?thesis by simp
  qed
qed

lemma missing_loop_filter:
  "missing_loop a i missing =
     missing @ filter (\<lambda>j. fmlookup (a_chunks a) j = None) [i .. a_totalChunks a - 1]"
proof (induction a i missing rule: missing_loop.induct)
  case (1 a i missing)
  show ?case
  proof (cases "i < a_totalChunks a")
    case True
    have "[i .. a_totalChunks a - 1] = i # [i + 1 .. a_totalChunks a - 1]"
      using True by (simp add: upto_rec1)
    then show ?thesis
      using True "1.IH" [OF True] by (subst missing_loop.simps) simp
  next
    case False
    then show ?thesis by (subst missing_loop.simps) simp
  qed
qed


lemma ceil_div_nonneg: "0 \<le> a \<Longrightarrow> 0 < b \<Longrightarrow> 0 \<le> ceil_div a b"
proof -
  assume a: "0 \<le> a" and b: "0 < b"
  have "(- a) div b \<le> 0" using a b by (simp add: div_nonpos_pos_le0)
  then show ?thesis by (simp add: ceil_div_def)
qed

lemma ceil_div_covers: "0 < b \<Longrightarrow> a \<le> ceil_div a b * b"
proof -
  assume b: "0 < b"
  have "(- a) div b * b = - a - (- a) mod b" by (simp add: minus_mod_eq_div_mult)
  moreover have "0 \<le> (- a) mod b" using b by simp
  ultimately have "(- a) div b * b \<le> - a" by linarith
  then show ?thesis by (simp add: ceil_div_def)
qed

lemma concat_pieces:
  assumes "0 < chunkSize" "0 \<le> cnt" "int (length bytes) \<le> cnt * chunkSize"
  shows "concat (map (\<lambda>i. take (nat chunkSize) (drop (nat (i * chunkSize)) bytes)) [0 .. cnt - 1]) = bytes"
proof -
  have "[0 .. cnt - 1] = map int [0 ..< nat cnt]"
    using upto_map_int [of "nat cnt"] assms(2) by simp
  then have "concat (map (\<lambda>i. take (nat chunkSize) (drop (nat (i * chunkSize)) bytes)) [0 .. cnt - 1])
        = concat (map (\<lambda>k. take (nat chunkSize) (drop (k * nat chunkSize) bytes)) [0 ..< nat cnt])"
    by (simp add: comp_def nat_mult_distrib)
  also have "\<dots> = take (nat cnt * nat chunkSize) bytes"
    by (rule concat_chunks_take)
  also have "\<dots> = bytes"
  proof -
    have "length bytes \<le> nat (cnt * chunkSize)" using assms(3) by simp
    then have "length bytes \<le> nat cnt * nat chunkSize"
      using assms(1,2) by (simp add: nat_mult_distrib)
    then show ?thesis by simp
  qed
  finally show ?thesis .
qed

lemma min_nat_int:
  "0 \<le> k \<Longrightarrow> 0 < c \<Longrightarrow> min (nat k + nat c) L = nat (min (int L) (k + c))"
  by arith

subsection \<open>Round trip\<close>

text \<open>
  Claim C1. For a readable file and a positive chunk size, let \<open>info\<close> be the
  description \<open>getFileInfo\<close> gives. Feeding a fresh assembler (expected hash and chunk
  count from \<open>info\<close>) the chunks \<open>readChunk\<close> produces for a list of indices that
  covers exactly \<open>[0, totalChunks)\<close>, in any order, succeeds; \<open>assemble\<close> then
  succeeds and writes at the output path exactly the bytes of the original file, whose
  digest is the one in \<open>info\<close>.
\<close>

theorem roundtrip:
  assumes src: "fs filePath = Some bytes"
    and cs: "0 < chunkSize"
    and info: "getFileInfo sha256 fs filePath chunkSize = Inr info"
    and idxs: "set idxs = {0 ..< fi_totalChunks info}"
  shows "\<exists>a. feedChunks sha256 fs filePath chunkSize idxs
                (newChunkAssembler outputPath (fi_hash info) (fi_totalChunks info)) = Some a
             \<and> assemble sha256 a fs' = (Inr (), fs'(outputPath \<mapsto> bytes))
             \<and> sha256 bytes = fi_hash info"
proof -
  let ?T = "ceil_div (int (length bytes)) chunkSize"
  let ?piece = "\<lambda>i. take (nat chunkSize) (drop (nat (i * chunkSize)) bytes)"
  let ?init = "newChunkAssembler outputPath (fi_hash info) (fi_totalChunks info)"
  let ?a = "?init\<lparr> a_chunks := fold (\<lambda>i. fmupd i (?piece i)) idxs (a_chunks ?init) \<rparr>"
  have T: "fi_totalChunks info = ?T" and h: "fi_hash info = sha256 bytes"
    using info src by (auto simp add: getFileInfo_def Let_def)
  have T0: "0 \<le> ?T" using cs by (simp add: ceil_div_nonneg)
  have nonneg: "\<forall>i \<in> set idxs. 0 \<le> i" using idxs by simp
  have fed: "feedChunks sha256 fs filePath chunkSize idxs ?init = Some ?a"
    by (rule feedChunks_fold [where fs = fs and filePath = filePath, OF src cs nonneg])
  have tot: "a_totalChunks ?a = ?T" and out: "a_outputPath ?a = outputPath"
    and exp: "a_expectedHash ?a = sha256 bytes"
    by (simp_all add: newChunkAssembler_def T h)
  have look: "fmlookup (a_chunks ?a) j = (if j \<in> set idxs then Some (?piece j) else None)" for j
    by (simp add: fmlookup_fold_fmupd newChunkAssembler_def)
  have "fmdom (a_chunks ?a) = fset_of_list idxs"
    by (simp add: fmdom_fold_fmupd newChunkAssembler_def)
  then have "fcard (fmdom (a_chunks ?a)) = card (set idxs)"
    by (simp add: fcard.rep_eq fset_of_list.rep_eq)
  then have size: "chunks_size ?a = ?T"
    using idxs T T0 by (simp add: chunks_size_def)
  have complete: "isComplete ?a"
    using size tot by (simp add: isComplete_def)
  have "\<forall>j. 0 \<le> j \<and> j < a_totalChunks ?a \<longrightarrow> fmlookup (a_chunks ?a) j = Some (?piece j)"
    using look idxs T tot by simp
  then have "collect_loop ?a 0 [] = Inr ([] @ map ?piece [0 .. a_totalChunks ?a - 1])"
    by (rule collect_loop_all)
  then have coll: "collect_loop ?a 0 [] = Inr (map ?piece [0 .. ?T - 1])"
    using tot by simp
  have cat: "concat (map ?piece [0 .. ?T - 1]) = bytes"
    using cs T0 ceil_div_covers [OF cs] by (rule concat_pieces)
  have asm: "assemble sha256 ?a fs' = (Inr (), fs'(outputPath \<mapsto> bytes))"
    using complete coll cat exp out by (simp add: assemble_def Let_def)
  show ?thesis
  proof (intro exI conjI)
    show "feedChunks sha256 fs filePath chunkSize idxs ?init = Some ?a" by (rule fed)
    show "assemble sha256 ?a fs' = (Inr (), fs'(outputPath \<mapsto> bytes))" by (rule asm)
    show "sha256 bytes = fi_hash info" by (simp add: h)
  qed
qed

theorem roundtrip_witness:
  "\<exists>a. feedChunks digest0 [''d/a.txt'' \<mapsto> [1, 2, 3, 4, 5]] ''d/a.txt'' 2 [2, 0, 1]
          (newChunkAssembler ''out/a.txt'' (digest0 [1, 2, 3, 4, 5]) 3) = Some a
     \<and> assemble digest0 a Map.empty = (Inr (), [''out/a.txt'' \<mapsto> [1, 2, 3, 4, 5]])
     \<and> digest0 [1, 2, 3, 4, 5] = digest0 [1, 2, 3, 4, 5]"
proof -
  let ?fs = "[''d/a.txt'' \<mapsto> [1, 2, 3, 4, 5 :: 8 word]]"
  let ?info = "\<lparr> fi_filename = ''a.txt'', fi_size = 5, fi_mimeType = ''text/plain'',
        fi_hash = digest0 [1, 2, 3, 4, 5], fi_chunkSize = 2, fi_totalChunks = 3 \<rparr>"
  have 1: "?fs ''d/a.txt'' = Some [1, 2, 3, 4, 5]" by simp
  have 2: "(0::int) < 2" by simp
  have 3: "getFileInfo digest0 ?fs ''d/a.txt'' 2 = Inr ?info"
    by (simp add: getFileInfo_def Let_def ceil_div_def split_pop_def toLowerCase_def mimeTypes_def)
  have 4: "set [2, 0, 1] = {0 ..< fi_totalChunks ?info}" by auto
  show ?thesis
    using roundtrip [where fs = ?fs and filePath = "''d/a.txt''" and outputPath = "''out/a.txt''"
        and fs' = Map.empty, OF 1 2 3 4]
    by (simp only: FileInfo.select_convs)
qed

subsection \<open>Reading a chunk\<close>

text \<open>
  Claim C8, as the code has it. For a readable file of size \<open>S\<close> and a positive chunk
  size, \<open>readChunk\<close> succeeds for every index and returns the index, a slice and the
  digest of that slice. For an index \<open>\<ge> 0\<close> the slice is the byte range
  \<open>[index * chunkSize, min S ((index + 1) * chunkSize))\<close>; from \<open>totalChunks\<close> on it is
  empty. No index makes the call fail.
\<close>

theorem readChunk_total:
  assumes "fs filePath = Some bytes" and "0 < chunkSize"
  shows "\<exists>c. readChunk sha256 fs filePath index chunkSize = Inr c
           \<and> c_index c = index
           \<and> c_hash c = sha256 (c_data c)
           \<and> (0 \<le> index \<longrightarrow>
                c_data c = map (nth bytes)
                  [nat (index * chunkSize) ..<
                   nat (min (int (length bytes)) ((index + 1) * chunkSize))])
           \<and> (ceil_div (int (length bytes)) chunkSize \<le> index \<longrightarrow> c_data c = [])"
proof -
  let ?c = "\<lparr> c_index = index,
              c_data = subarray bytes (index * chunkSize)
                         (min (index * chunkSize + chunkSize) (int (length bytes))),
              c_hash = sha256 (subarray bytes (index * chunkSize)
                         (min (index * chunkSize + chunkSize) (int (length bytes)))) \<rparr>"
  have r: "readChunk sha256 fs filePath index chunkSize = Inr ?c"
    using assms(1) by (simp add: readChunk_def Let_def)
  have range: "c_data ?c = map (nth bytes)
                  [nat (index * chunkSize) ..<
                   nat (min (int (length bytes)) ((index + 1) * chunkSize))]"
    if i: "0 \<le> index"
  proof -
    have "c_data ?c = take (nat chunkSize) (drop (nat (index * chunkSize)) bytes)"
      using subarray_chunk [OF i assms(2)] by simp
    also have "\<dots> = map (nth bytes)
        [nat (index * chunkSize) ..< min (nat (index * chunkSize) + nat chunkSize) (length bytes)]"
      by (rule take_drop_nth_range)
    also have "min (nat (index * chunkSize) + nat chunkSize) (length bytes)
        = nat (min (int (length bytes)) ((index + 1) * chunkSize))"
      using i assms(2) min_nat_int [of "index * chunkSize" chunkSize "length bytes"]
      by (simp add: distrib_right)
    finally show ?thesis .
  qed
  have beyond: "c_data ?c = []" if b: "ceil_div (int (length bytes)) chunkSize \<le> index"
  proof -
    have i: "0 \<le> index" using b ceil_div_nonneg [of "int (length bytes)" chunkSize] assms(2) by simp
    have "int (length bytes) \<le> ceil_div (int (length bytes)) chunkSize * chunkSize"
      using assms(2) by (rule ceil_div_covers)
    also have "\<dots> \<le> index * chunkSize" using b assms(2) by (simp add: mult_right_mono)
    finally have "length bytes \<le> nat (index * chunkSize)" by simp
    then show ?thesis using subarray_chunk [OF i assms(2)] by simp
  qed
  show ?thesis
    using r range beyond by (intro exI [where x = ?c]) simp
qed

theorem readChunk_total_witness:
  "\<exists>c. readChunk digest0 [''f'' \<mapsto> [1, 2, 3]] ''f'' 1 2 = Inr c
       \<and> c_index c = 1 \<and> c_hash c = digest0 (c_data c) \<and> c_data c = [3]"
  using readChunk_total [of "[''f'' \<mapsto> [1, 2, 3]]" "''f''" "[1, 2, 3]" 2 digest0 1]
  by auto

text \<open>
  The file has three bytes and the chunk size is two, so the valid indices are 0 and 1.
  Index 5 does not fail: the call returns an empty chunk.
\<close>

theorem readChunk_out_of_range_counterexample:
  "readChunk digest0 [''f'' \<mapsto> [1, 2, 3]] ''f'' 5 2 =
     Inr \<lparr> c_index = 5, c_data = [], c_hash = digest0 [] \<rparr>"
  by (simp add: readChunk_def subarray_def adjustOffset_def Let_def)

subsection \<open>Progress\<close>

text \<open>Rounding to an integer moves a number by at most one half.\<close>

lemma round_ties_even_error: "\<bar>of_int (round_ties_even z) - z\<bar> \<le> 1 / 2"
proof -
  have "of_int \<lfloor>z\<rfloor> \<le> z" "z < of_int \<lfloor>z\<rfloor> + 1" by linarith+
  then show ?thesis
    unfolding round_ties_even_def Let_def by (simp split: if_splits)
qed

text \<open>\<open>floor_log2 x\<close> is the exponent of the leading bit of \<open>x\<close>.\<close>

lemma floor_log2_bounds:
  assumes x: "0 < x"
  shows "2 powi (floor_log2 x) \<le> x" and "x < 2 powi (floor_log2 x + 1)"
proof -
  obtain p q where pq: "quotient_of x = (p, q)" by (cases "quotient_of x")
  have q: "0 < q" using pq by (rule quotient_of_denom_pos)
  have xpq: "x = of_int p / of_int q" using pq by (rule quotient_of_div)
  have p: "0 < p" using x q xpq by (simp add: zero_less_divide_iff)
  define bp where "bp = bitlen p"
  define bq where "bq = bitlen q"
  have bp1: "1 \<le> bp"
    using p bitlen_eq_zero_iff [of p] bitlen_nonneg [of p] unfolding bp_def by linarith
  have bq1: "1 \<le> bq"
    using q bitlen_eq_zero_iff [of q] bitlen_nonneg [of q] unfolding bq_def by linarith
  have "2 ^ nat (bp - 1) \<le> p" "p < 2 ^ nat bp"
    using bitlen_bounds [OF p] unfolding bp_def by simp_all
  then have "(of_int (2 ^ nat (bp - 1)) :: rat) \<le> of_int p" "(of_int p :: rat) < of_int (2 ^ nat bp)"
    by (simp_all only: of_int_le_iff of_int_less_iff)
  then have P: "2 powi (bp - 1) \<le> (of_int p :: rat)" "(of_int p :: rat) < 2 powi bp"
    using bp1 by (simp_all add: power_int_def)
  have "2 ^ nat (bq - 1) \<le> q" "q < 2 ^ nat bq"
    using bitlen_bounds [OF q] unfolding bq_def by simp_all
  then have "(of_int (2 ^ nat (bq - 1)) :: rat) \<le> of_int q" "(of_int q :: rat) < of_int (2 ^ nat bq)"
    by (simp_all only: of_int_le_iff of_int_less_iff)
  then have Q: "2 powi (bq - 1) \<le> (of_int q :: rat)" "(of_int q :: rat) < 2 powi bq"
    using bq1 by (simp_all add: power_int_def)
  have qpos: "(0::rat) < of_int q" using q by simp
  have low: "2 powi (bp - bq - 1) \<le> x"
  proof -
    have "(2::rat) powi (bp - bq - 1) = 2 powi (bp - 1) / 2 powi bq"
      using power_int_diff [of "2::rat" "bp - 1" bq] by (simp add: algebra_simps)
    also have "\<dots> \<le> of_int p / 2 powi bq"
      using P(1) by (simp add: divide_right_mono)
    also have "\<dots> \<le> of_int p / of_int q"
      using Q(2) qpos p by (simp add: frac_le)
    finally show ?thesis using xpq by simp
  qed
  have high: "x < 2 powi (bp - bq + 1)"
  proof -
    have "x < 2 powi bp / of_int q"
      using P(2) qpos xpq by (simp add: divide_strict_right_mono)
    also have "\<dots> \<le> 2 powi bp / 2 powi (bq - 1)"
      using Q(1) by (simp add: frac_le)
    also have "\<dots> = 2 powi (bp - bq + 1)"
      using power_int_diff [of "2::rat" bp "bq - 1"] by (simp add: algebra_simps)
    finally show ?thesis .
  qed
  have fl: "floor_log2 x = (if 2 powi (bp - bq) \<le> x then bp - bq else bp - bq - 1)"
    unfolding floor_log2_def by (simp add: pq bp_def bq_def Let_def)
  show "2 powi (floor_log2 x) \<le> x" using low by (simp add: fl)
  show "x < 2 powi (floor_log2 x + 1)" using high by (simp add: fl not_le)
qed

text \<open>
  In the normal range a double differs from the number it rounds by at most the
  fraction \<open>2^-53\<close> of that number.
\<close>

lemma unit_roundoff:
  "(2::rat) powi (- 53) = 1 / 2 ^ 53"
  "(2::rat) powi (- 54) = (1 / 2 ^ 53) / 2"
  "(2::rat) powi (- 968) \<le> 1"
  "(0::rat) < 1 / 2 ^ 53"
  "(1 / 2 ^ 53 :: rat) < 1"
  by (simp_all add: power_int_minus inverse_eq_divide)

lemma smallest_normal: "(2::rat) powi (- 1022) = 2 powi (- 968) * 2 powi (- 54)"
  using power_int_add [of "2::rat" "- 968" "- 54"] by simp

lemma to_double_zero: "to_double 0 = 0"
  by (simp add: to_double_def)

lemma to_double_error:
  assumes x: "2 powi (- 1022) \<le> x"
  shows "\<bar>to_double x - x\<bar> \<le> x * 2 powi (- 53)"
proof -
  have x0: "0 < x"
  proof -
    have "(0::rat) < 2 powi (- 1022)" by (rule zero_less_power_int) simp
    then show ?thesis using x by linarith
  qed
  define e where "e = max (floor_log2 x - 52) (- 1074)"
  define m where "m = round_ties_even (x / 2 powi e)"
  have pe: "(0::rat) < 2 powi e" by (rule zero_less_power_int) simp
  have td: "to_double x = of_int m * 2 powi e"
    using x0 unfolding to_double_def by (simp add: e_def m_def Let_def)
  have "\<bar>of_int m - x / 2 powi e\<bar> \<le> 1 / 2"
    unfolding m_def by (rule round_ties_even_error)
  then have "\<bar>of_int m - x / 2 powi e\<bar> * 2 powi e \<le> 1 / 2 * 2 powi e"
    using pe by (simp add: mult_right_mono)
  moreover have "\<bar>of_int m - x / 2 powi e\<bar> * 2 powi e = \<bar>of_int m * 2 powi e - x\<bar>"
  proof -
    have "\<bar>of_int m - x / 2 powi e\<bar> * 2 powi e = \<bar>(of_int m - x / 2 powi e) * 2 powi e\<bar>"
      using pe by (simp add: abs_mult)
    also have "(of_int m - x / 2 powi e) * 2 powi e = of_int m * 2 powi e - x"
      using pe by (simp add: field_simps)
    finally show ?thesis .
  qed
  ultimately have err: "\<bar>to_double x - x\<bar> \<le> 2 powi e / 2" by (simp add: td)
  have "2 powi e / 2 \<le> x * 2 powi (- 53)"
  proof (cases "- 1074 \<le> floor_log2 x - 52")
    case True
    then have "e = floor_log2 x - 52" by (simp add: e_def)
    then have "(2::rat) powi e / 2 = 2 powi (floor_log2 x) * 2 powi (- 53)"
      using power_int_add [of "2::rat" "floor_log2 x" "- 53"]
        power_int_diff [of "2::rat" "floor_log2 x - 52" 1]
      by simp
    also have "\<dots> \<le> x * 2 powi (- 53)"
      using floor_log2_bounds(1) [OF x0] by (simp add: mult_right_mono)
    finally show ?thesis .
  next
    case False
    then have "e = - 1074" by (simp add: e_def)
    then have "(2::rat) powi e / 2 = 2 powi (- 1022) * 2 powi (- 53)"
      using power_int_add [of "2::rat" "- 1022" "- 53"] power_int_diff [of "2::rat" "- 1074" 1]
      by simp
    also have "\<dots> \<le> x * 2 powi (- 53)"
      using x by (simp add: mult_right_mono)
    finally show ?thesis .
  qed
  then show ?thesis using err by linarith
qed

text \<open>
  The two roundings of \<open>(s / t) * 100\<close> move the result by less than \<open>1 / (2 * t)\<close>
  when \<open>s \<le> 2^44\<close>: less than the distance from \<open>100 * s / t\<close> to the nearest
  number that lies half-way between two integers, unless it is one itself.
\<close>

lemma percent_error:
  assumes t: "0 < (t::int)" "t \<le> 2 ^ 53" and s: "0 \<le> (s::int)" "s \<le> 2 ^ 44"
  shows "\<bar>double_mul (double_div (of_int s) (of_int t)) 100 * of_int (2 * t) - of_int (200 * s)\<bar> < 1"
proof (cases "s = 0")
  case True
  then show ?thesis by (simp add: double_mul_def double_div_def to_double_zero)
next
  case False
  then have s1: "1 \<le> s" using s by simp
  define u :: rat where "u = 1 / 2 ^ 53"
  have u: "(2::rat) powi (- 53) = u" by (simp only: u_def unit_roundoff(1))
  have u0: "0 < u" "u < 1" unfolding u_def by (rule unit_roundoff)+
  define q :: rat where "q = of_int s / of_int t"
  define q' where "q' = to_double q"
  define y where "y = to_double (q' * 100)"
  have "(of_int t :: rat) \<le> of_int (2 ^ 53)" using t(2) by (simp only: of_int_le_iff)
  then have tr: "(0::rat) < of_int t" "(of_int t :: rat) \<le> 2 ^ 53" using t(1) by simp_all
  have "(of_int 1 :: rat) \<le> of_int s" "(of_int s :: rat) \<le> of_int (2 ^ 44)"
    using s1 s(2) by (simp_all only: of_int_le_iff)
  then have sr: "(1::rat) \<le> of_int s" "(of_int s :: rat) \<le> 2 ^ 44" by simp_all
  have small: "(2::rat) powi (- 1022) \<le> u / 2"
  proof -
    have "(2::rat) powi (- 1022) = 2 powi (- 968) * 2 powi (- 54)" by (rule smallest_normal)
    also have "\<dots> \<le> 1 * 2 powi (- 54)"
      using unit_roundoff(3) by (rule mult_right_mono) simp
    also have "\<dots> = u / 2" by (simp only: u_def unit_roundoff(2) mult_1)
    finally show ?thesis .
  qed
  have qlow: "u \<le> q"
  proof -
    have "u = 1 / 2 ^ 53" by (simp add: u_def)
    also have "\<dots> \<le> of_int s / of_int t"
      using tr sr(1) by (intro frac_le) simp_all
    finally show ?thesis by (simp add: q_def)
  qed
  then have q0: "0 < q" using u0 by linarith
  have "\<bar>q' - q\<bar> \<le> q * 2 powi (- 53)"
    unfolding q'_def using small qlow u0 by (intro to_double_error) linarith
  then have e1: "\<bar>q' - q\<bar> \<le> q * u" by (simp only: u)
  have "u \<le> 1 / 2" unfolding u_def by simp
  then have "q * u \<le> q * (1 / 2)" using q0 by (intro mult_left_mono) simp_all
  then have qu: "q * u \<le> q / 2" by simp
  have q'low: "q / 2 \<le> q'" using e1 qu by linarith
  have q'up: "q' \<le> q * (1 + u)" using e1 by (simp add: algebra_simps)
  have "2 powi (- 1022) \<le> q' * 100" using small qlow q'low u0 by linarith
  then have "\<bar>y - q' * 100\<bar> \<le> q' * 100 * 2 powi (- 53)"
    unfolding y_def by (rule to_double_error)
  then have e2: "\<bar>y - q' * 100\<bar> \<le> q' * 100 * u" by (simp only: u)
  have "q' * 100 * u \<le> q * (1 + u) * 100 * u"
    using q'up u0 by (simp add: mult_right_mono)
  then have e3: "\<bar>y - q' * 100\<bar> \<le> q * (1 + u) * 100 * u" using e2 by linarith
  have "\<bar>(y - q' * 100) + 100 * (q' - q)\<bar> \<le> \<bar>y - q' * 100\<bar> + \<bar>100 * (q' - q)\<bar>"
    by (rule abs_triangle_ineq)
  moreover have "(y - q' * 100) + 100 * (q' - q) = y - q * 100" by (simp add: algebra_simps)
  moreover have "\<bar>100 * (q' - q)\<bar> = 100 * \<bar>q' - q\<bar>" by (simp only: abs_mult abs_numeral)
  ultimately have "\<bar>y - q * 100\<bar> \<le> \<bar>y - q' * 100\<bar> + 100 * \<bar>q' - q\<bar>" by simp
  also have "\<dots> \<le> q * (1 + u) * 100 * u + 100 * (q * u)"
    using e3 e1 by (intro add_mono mult_left_mono) simp_all
  also have "\<dots> = q * (100 * u * (2 + u))" by (simp add: algebra_simps)
  finally have e4: "\<bar>y - q * 100\<bar> \<le> q * (100 * u * (2 + u))" .
  have t2: "(0::rat) < of_int (2 * t)" using t by simp
  have "\<bar>y * of_int (2 * t) - of_int (200 * s)\<bar> = \<bar>y - q * 100\<bar> * of_int (2 * t)"
  proof -
    have "y * of_int (2 * t) - of_int (200 * s) = (y - q * 100) * of_int (2 * t)"
      using tr(1) by (simp add: q_def field_simps)
    then show ?thesis using t2 by (simp only: abs_mult abs_of_pos)
  qed
  also have "\<dots> \<le> q * (100 * u * (2 + u)) * of_int (2 * t)"
    using e4 t2 by (simp only: mult_right_mono less_imp_le)
  also have "\<dots> = of_int s * (200 * u * (2 + u))"
    using tr(1) by (simp add: q_def field_simps)
  also have "\<dots> \<le> 2 ^ 44 * (200 * u * (2 + u))"
    using sr(2) u0 by (intro mult_right_mono) simp_all
  also have "\<dots> < 1" unfolding u_def by simp
  finally show ?thesis by (simp add: y_def q'_def q_def double_mul_def double_div_def)
qed

lemma Math_round_percent:
  assumes t: "0 < (t::int)" "t \<le> 2 ^ 53" and s: "0 \<le> (s::int)" "s \<le> 2 ^ 44"
  shows "2 * \<bar>Math_round (double_mul (double_div (of_int s) (of_int t)) 100) * t - 100 * s\<bar> \<le> t"
proof -
  define y where "y = double_mul (double_div (of_int s) (of_int t)) 100"
  define r where "r = \<lfloor>y + 1 / 2\<rfloor>"
  have r: "Math_round (double_mul (double_div (of_int s) (of_int t)) 100) = r"
    by (simp add: Math_round_def r_def y_def)
  have tr: "(0::rat) < of_int t" using t by simp
  have err: "\<bar>y * of_int (2 * t) - of_int (200 * s)\<bar> < 1"
    unfolding y_def using assms by (rule percent_error)
  have "of_int r \<le> y + 1 / 2" "y + 1 / 2 < of_int r + 1" unfolding r_def by linarith+
  then have "of_int r * of_int (2 * t) \<le> (y + 1 / 2) * of_int (2 * t)"
    "(y + 1 / 2) * of_int (2 * t) < (of_int r + 1) * of_int (2 * t)"
    using tr by (simp_all add: mult_le_cancel_right mult_less_cancel_right)
  then have b: "of_int ((2 * r - 1) * t) \<le> y * of_int (2 * t)"
    "y * of_int (2 * t) < of_int ((2 * r + 1) * t)"
    by (simp_all add: algebra_simps)
  have "(of_int ((2 * r - 1) * t) :: rat) < of_int (200 * s + 1)"
    using b(1) err by (simp only: of_int_add of_int_1)
  then have 1: "(2 * r - 1) * t < 200 * s + 1" by (simp only: of_int_less_iff)
  have "(of_int (200 * s - 1) :: rat) < of_int ((2 * r + 1) * t)"
    using b(2) err by (simp only: of_int_diff of_int_1)
  then have 2: "200 * s - 1 < (2 * r + 1) * t" by (simp only: of_int_less_iff)
  define a where "a = r * t"
  have "(2 * r - 1) * t = 2 * a - t" "(2 * r + 1) * t = 2 * a + t"
    by (simp_all add: a_def algebra_simps)
  then have "2 * a - t < 200 * s + 1" "200 * s - 1 < 2 * a + t" using 1 2 by simp_all
  then have "2 * \<bar>a - 100 * s\<bar> \<le> t" by (cases "100 * s \<le> a") simp_all
  then show ?thesis by (simp only: r a_def)
qed

text \<open>
  An integer \<open>r\<close> within one half of \<open>n / t\<close> is the floor of \<open>n / t\<close> or the floor
  plus one, and the fractional part of \<open>n / t\<close> says which, unless it is one half.
\<close>

lemma nearest_cases:
  assumes t: "0 < (t::int)" and b: "2 * \<bar>r * t - n\<bar> \<le> t"
  shows "r = n div t \<or> r = n div t + 1"
    and "2 * (n mod t) < t \<Longrightarrow> r = n div t"
    and "t < 2 * (n mod t) \<Longrightarrow> r = n div t + 1"
proof -
  define d m k where "d = n div t" and "m = n mod t" and "k = r - d"
  define p where "p = k * t"
  have n: "n = d * t + m" unfolding d_def m_def by simp
  have m: "0 \<le> m" "m < t" using t unfolding m_def by simp_all
  have "r * t - n = p - m" by (simp add: p_def k_def n algebra_simps)
  moreover have "\<bar>2 * (p - m)\<bar> = 2 * \<bar>p - m\<bar>" by (simp only: abs_mult abs_numeral)
  ultimately have "\<bar>2 * (p - m)\<bar> \<le> t" using b by (simp only:)
  then have bound: "2 * (p - m) \<le> t" "- (2 * (p - m)) \<le> t" by (simp_all only: abs_le_iff)
  have k0: "0 \<le> k"
  proof (rule ccontr)
    assume "\<not> 0 \<le> k"
    then have "k \<le> - 1" by simp
    then have "k * t \<le> (- 1) * t" using t by (intro mult_right_mono) simp_all
    then have "p \<le> - t" by (simp add: p_def)
    then show False using bound m t by presburger
  qed
  have k1: "k \<le> 1"
  proof (rule ccontr)
    assume "\<not> k \<le> 1"
    then have "2 \<le> k" by simp
    then have "2 * t \<le> k * t" using t by (intro mult_right_mono) simp_all
    then have "2 * t \<le> p" by (simp add: p_def)
    then show False using bound m t by presburger
  qed
  have k: "k = 0 \<or> k = 1" using k0 k1 by linarith
  then show "r = n div t \<or> r = n div t + 1" by (auto simp: k_def d_def)
  show "r = n div t" if "2 * (n mod t) < t"
  proof -
    have "k \<noteq> 1"
    proof
      assume "k = 1"
      then have "p = t" by (simp add: p_def)
      then show False using bound that m by (simp add: m_def)
    qed
    then show ?thesis using k by (simp add: k_def d_def)
  qed
  show "r = n div t + 1" if "t < 2 * (n mod t)"
  proof -
    have "k \<noteq> 0"
    proof
      assume "k = 0"
      then have "p = 0" by (simp add: p_def)
      then show False using bound that m by (simp add: m_def)
    qed
    then show ?thesis using k by (simp add: k_def d_def)
  qed
qed

text \<open>
  Claim C9, as the code has it. With \<open>0 < totalChunks \<le> 2^53\<close> and at most
  \<open>2^44\<close> chunks stored, \<open>getProgress\<close> returns an integer nearest to
  \<open>100 * receivedCount / totalChunks\<close>, at most one half away from it: the floor when
  the fractional part is below one half, the floor plus one when it is above, and one of
  the two when it is exactly one half (there the rounding of the doubles decides).
\<close>

theorem getProgress_nearest:
  assumes "0 < a_totalChunks a" and "a_totalChunks a \<le> 2 ^ 53" and "chunks_size a \<le> 2 ^ 44"
  shows "\<exists>r. getProgress a = Num r
           \<and> 2 * \<bar>r * a_totalChunks a - 100 * chunks_size a\<bar> \<le> a_totalChunks a
           \<and> (r = (100 * chunks_size a) div a_totalChunks a
                \<or> r = (100 * chunks_size a) div a_totalChunks a + 1)
           \<and> (2 * ((100 * chunks_size a) mod a_totalChunks a) < a_totalChunks a
                \<longrightarrow> r = (100 * chunks_size a) div a_totalChunks a)
           \<and> (a_totalChunks a < 2 * ((100 * chunks_size a) mod a_totalChunks a)
                \<longrightarrow> r = (100 * chunks_size a) div a_totalChunks a + 1)"
proof -
  define t where "t = a_totalChunks a"
  define s where "s = chunks_size a"
  define r where "r = Math_round (double_mul (double_div (of_int s) (of_int t)) 100)"
  have t: "0 < t" "t \<le> 2 ^ 53" and s: "0 \<le> s" "s \<le> 2 ^ 44"
    using assms by (simp_all add: t_def s_def chunks_size_def)
  have "getProgress a = Num r"
    using t(1) by (simp add: getProgress_def r_def t_def s_def)
  moreover have near: "2 * \<bar>r * t - 100 * s\<bar> \<le> t"
    unfolding r_def using t s by (rule Math_round_percent)
  moreover note nearest_cases [OF t(1) near]
  ultimately show ?thesis
    unfolding t_def s_def by (intro exI [of _ r] conjI impI)
qed

lemma t23: "chunks_size two_of_three = 2" "a_totalChunks two_of_three = 3"
  by (simp_all add: two_of_three_def chunks_size_def fcard_finsert_if)

theorem getProgress_nearest_witness: "getProgress two_of_three = Num 67"
  using getProgress_nearest [of two_of_three] by (simp add: t23)

text \<open>
  Two quotients that lie exactly half-way: \<open>1 / 8\<close> is a double and \<open>12.5\<close> is
  rounded up; \<open>23 / 40\<close> is not, the product is the double just below \<open>57.5\<close>, and
  the result is 57.
\<close>

lemma Math_round_ties:
  "Math_round (double_mul (double_div 1 8) 100) = 13"
  "Math_round (double_mul (double_div 23 40) 100) = 57"
  by code_simp+

text \<open>
  The bound on the number of chunks is needed: with \<open>34102167353734\<close> (just below
  \<open>2^45\<close>) of 3 the exact percentage ends in \<open>133.33\<close> and the doubles give
  \<open>134\<close>.
\<close>

lemma Math_round_large:
  "Math_round (double_mul (double_div 34102167353734 3) 100) = 1136738911791134"
  "\<lfloor>(100 * 34102167353734 / 3 :: rat) + 1 / 2\<rfloor> = 1136738911791133"
  by code_simp+

lemma Math_round_two_thirds: "Math_round (double_mul (double_div 2 3) 100) = 67"
  by code_simp

text \<open>With two of three chunks stored the progress is 67, and the floor is 66.\<close>

theorem getProgress_floor_counterexample:
  "getProgress two_of_three \<noteq>
     Num \<lfloor>100 * (of_int (chunks_size two_of_three) :: rat) / of_int (a_totalChunks two_of_three)\<rfloor>"
proof -
  have "getProgress two_of_three = Num 67"
    by (simp add: getProgress_def t23 Math_round_two_thirds)
  moreover have "\<lfloor>100 * (of_int 2 :: rat) / of_int 3\<rfloor> = (66::int)"
    by code_simp
  ultimately show ?thesis by (simp add: t23)
qed

subsection \<open>The gate of assemble\<close>

lemma assemble_incomplete:
  "\<not> isComplete a \<Longrightarrow> assemble sha256 a fs = (Inl (MissingChunks (getMissingChunks a)), fs)"
  by (simp add: assemble_def)

lemma assemble_gap:
  "isComplete a \<Longrightarrow> collect_loop a 0 [] = Inl e \<Longrightarrow> assemble sha256 a fs = (Inl e, fs)"
  by (simp add: assemble_def)

lemma assemble_mismatch:
  "isComplete a \<Longrightarrow> collect_loop a 0 [] = Inr buffers \<Longrightarrow>
   sha256 (concat buffers) \<noteq> a_expectedHash a \<Longrightarrow>
   assemble sha256 a fs =
     (Inl (FileHashMismatch (a_expectedHash a) (sha256 (concat buffers))), fs)"
  by (simp add: assemble_def Let_def)

lemma assemble_written:
  "isComplete a \<Longrightarrow> collect_loop a 0 [] = Inr buffers \<Longrightarrow>
   sha256 (concat buffers) = a_expectedHash a \<Longrightarrow>
   assemble sha256 a fs = (Inr (), fs(a_outputPath a \<mapsto> concat buffers))"
  by (simp add: assemble_def Let_def)

text \<open>
  Claim C4. When fewer chunks are stored than \<open>totalChunks\<close>, \<open>assemble\<close> fails
  with \<open>MissingChunks\<close> listing exactly the indices of \<open>[0, totalChunks)\<close> that are
  not stored, in increasing order, and leaves the file system as it was. Every failure
  leaves the file system as it was. A success means that every index of
  \<open>[0, totalChunks)\<close> is stored, that the digest of the concatenation in index order
  equals the expected hash, and that exactly this concatenation was written at the
  output path.
\<close>

theorem assemble_gate:
  "(chunks_size a < a_totalChunks a \<longrightarrow>
      assemble sha256 a fs =
        (Inl (MissingChunks (filter (\<lambda>i. fmlookup (a_chunks a) i = None) [0 .. a_totalChunks a - 1])), fs))
   \<and> (\<forall>e. fst (assemble sha256 a fs) = Inl e \<longrightarrow> snd (assemble sha256 a fs) = fs)
   \<and> (fst (assemble sha256 a fs) = Inr () \<longrightarrow>
        (\<exists>buffers. map Some buffers = map (fmlookup (a_chunks a)) [0 .. a_totalChunks a - 1]
            \<and> sha256 (concat buffers) = a_expectedHash a
            \<and> snd (assemble sha256 a fs) = fs(a_outputPath a \<mapsto> concat buffers)))"
proof -
  have miss: "getMissingChunks a = filter (\<lambda>i. fmlookup (a_chunks a) i = None) [0 .. a_totalChunks a - 1]"
    unfolding getMissingChunks_def by (subst missing_loop_filter) simp
  show ?thesis
  proof (cases "isComplete a")
    case False
    have "assemble sha256 a fs = (Inl (MissingChunks (getMissingChunks a)), fs)"
      using False by (rule assemble_incomplete)
    then show ?thesis using miss by simp
  next
    case True
    then have nolt: "\<not> chunks_size a < a_totalChunks a" by (simp add: isComplete_def)
    show ?thesis
    proof (cases "collect_loop a 0 []")
      case (Inl e)
      have "assemble sha256 a fs = (Inl e, fs)" using True Inl by (rule assemble_gap)
      then show ?thesis using nolt by simp
    next
      case (Inr buffers)
      from collect_loop_Inr [OF Inr]
      have m: "map Some buffers = map (fmlookup (a_chunks a)) [0 .. a_totalChunks a - 1]" by simp
      show ?thesis
      proof (cases "sha256 (concat buffers) = a_expectedHash a")
        case False
        have "assemble sha256 a fs =
            (Inl (FileHashMismatch (a_expectedHash a) (sha256 (concat buffers))), fs)"
          using True Inr False by (rule assemble_mismatch)
        then show ?thesis using nolt by simp
      next
        case same: True
        have w: "assemble sha256 a fs = (Inr (), fs(a_outputPath a \<mapsto> concat buffers))"
          using True Inr same by (rule assemble_written)
        have "\<exists>bs. map Some bs = map (fmlookup (a_chunks a)) [0 .. a_totalChunks a - 1]
            \<and> sha256 (concat bs) = a_expectedHash a
            \<and> snd (assemble sha256 a fs) = fs(a_outputPath a \<mapsto> concat bs)"
          using m same w by (intro exI [where x = buffers]) simp
        then show ?thesis using w nolt by simp
      qed
    qed
  qed
qed

theorem assemble_gate_witness:
  "chunks_size one_of_three < a_totalChunks one_of_three
   \<and> assemble digest0 one_of_three Map.empty = (Inl (MissingChunks [0, 2]), Map.empty)"
proof -
  have 1: "chunks_size one_of_three < a_totalChunks one_of_three"
    by (simp add: one_of_three_def chunks_size_def fcard_finsert_if fcard_fempty)
  have 2: "filter (\<lambda>i. fmlookup (a_chunks one_of_three) i = None) [0 .. a_totalChunks one_of_three - 1] = [0, 2]"
    by (simp add: one_of_three_def upto.simps)
  show ?thesis using assemble_gate [of one_of_three digest0 Map.empty] 1 2 by simp
qed

section \<open>Properties of the transfer manager\<close>

subsection \<open>Facts about the example data\<close>

lemma config0_simps:
  "cfg_botId config0 = ''alice''" "cfg_secret config0 = ''s3cret''" "cfg_autoAccept config0 = False"
  "cfg_chunkSize config0 = 2" "cfg_maxFileSize config0 = Some (100 * 1024 * 1024)"
  "cfg_downloadDir config0 = ''dl''" "cfg_trustedPeers config0 = []" "cfg_secretTTL config0 = None"
  by (simp_all add: config0_def)

lemma alice0_simps:
  "config alice0 = config0" "sentMessages alice0 = []" "transfers alice0 = Map.empty"
  "disk alice0 = disk0"
  by (simp_all add: alice0_def newTransferManager_def)

lemma decode_stray:
  "decodeFromChat platform0 (OCFT_PREFIX @ ''stray'') = Some stray_message"
  by (simp add: decodeFromChat_def startsWith_def deserialize_def platform0_def
      stray_message_def createMessage_def OCFT_VERSION_def char_of_eq_iff)

lemma alice_offered_simps:
  "transfers alice_offered ''xfer_abc'' = Some transfer_abc"
  "filePaths alice_offered ''xfer_abc'' = Some ''d/a.txt''"
  "disk alice_offered = disk0"
  "config alice_offered = config0"
  "length (sentMessages alice_offered) = 1"
  by (simp_all add: alice_offered_def sendFile_def alice0_def newTransferManager_def config0_def
      disk0_def platform0_def getFileInfo_def Let_def ceil_div_def split_pop_def toLowerCase_def
      mimeTypes_def emit_def send_def transfer_abc_def)

lemma alice_failed_simps:
  "transfers alice_failed ''xfer_abc'' =
     Some (transfer_abc\<lparr> t_state := Failed, t_error := Some (Text ''gone''), t_updatedAt := 2 \<rparr>)"
  "filePaths alice_failed ''xfer_abc'' = Some ''d/a.txt''"
  "disk alice_failed = disk0"
  "config alice_failed = config0"
  "sentMessages alice_failed = sentMessages alice_offered"
  by (simp_all add: alice_failed_def handleDecoded_def handleError_def error_from_bob_def
      createMessage_def alice_offered_simps config0_def Let_def emit_def)

lemma transfer_abc_simps:
  "t_direction transfer_abc = Send" "t_totalChunks transfer_abc = 3"
  "t_chunkSize transfer_abc = 2" "t_peerId transfer_abc = ''bob''"
  "t_hash transfer_abc = digest0 [1, 2, 3, 4, 5]" "t_state transfer_abc = Pending"
  "t_receivedChunks transfer_abc = {||}"
  by (simp_all add: transfer_abc_def)

lemma from_bob_simps:
  "m_transferId accept_from_bob = ''xfer_abc''" "m_to accept_from_bob = ''alice''"
  "m_payload accept_from_bob = AcceptP \<lparr> ac_ready = True, ac_resumeFrom = None \<rparr>"
  "m_transferId (ack_from_bob i) = ''xfer_abc''" "m_to (ack_from_bob i) = ''alice''"
  "m_payload (ack_from_bob i) = AckP \<lparr> ak_index = i, ak_received = True, ak_error = None \<rparr>"
  by (simp_all add: accept_from_bob_def ack_from_bob_def createMessage_def)

lemma pieces_abc:
  "subarray [1, 2, 3, 4, 5 :: 8 word] 0 2 = [1, 2]"
  "subarray [1, 2, 3, 4, 5 :: 8 word] 2 4 = [3, 4]"
  "subarray [1, 2, 3, 4, 5 :: 8 word] 4 5 = [5]"
  by (simp_all add: subarray_def adjustOffset_def Let_def)

lemma alice_completing_simps:
  "transfers alice_completing ''xfer_one'' =
     Some (transfer_one\<lparr> t_state := Completing, t_updatedAt := 3, t_receivedChunks := {|0|} \<rparr>)"
  "config alice_completing = config0"
  "length (sentMessages alice_completing) = 3"
proof -
  define s0 where "s0 = snd (sendFile platform0 1 ''one'' (newTransferManager config0 disk1) ''bob'' ''d/b.txt'')"
  have s0: "transfers s0 ''xfer_one'' = Some transfer_one"
    "filePaths s0 ''xfer_one'' = Some ''d/b.txt''"
    "disk s0 ''d/b.txt'' = Some [7, 8]" "config s0 = config0" "length (sentMessages s0) = 1"
    by (simp_all add: s0_def sendFile_def newTransferManager_def config0_simps
      disk1_def platform0_def getFileInfo_def Let_def ceil_div_def split_pop_def toLowerCase_def
      mimeTypes_def emit_def send_def transfer_one_def)
  define acc where "acc = createMessage ''xfer_one'' ''bob'' ''alice''
            (AcceptP \<lparr> ac_ready = True, ac_resumeFrom = None \<rparr>) 2"
  define ack where "ack = createMessage ''xfer_one'' ''bob'' ''alice''
            (AckP \<lparr> ak_index = 0, ak_received = True, ak_error = None \<rparr>) 3"
  have t1: "t_direction transfer_one = Send" "t_totalChunks transfer_one = 1"
    "t_chunkSize transfer_one = 2" "t_peerId transfer_one = ''bob''"
    by (simp_all add: transfer_one_def)
  define s1 where "s1 = snd (handleDecoded platform0 2 s0 acc)"
  have s1: "transfers s1 ''xfer_one'' = Some (transfer_one\<lparr> t_state := Transferring, t_updatedAt := 2 \<rparr>)"
    "config s1 = config0" "length (sentMessages s1) = 2"
    by (simp_all add: s1_def acc_def handleDecoded_def handleAccept_def sendNextChunk_def readChunk_def
        createMessage_def s0 t1 config0_simps Let_def emit_def send_def)
  define s2 where "s2 = snd (handleDecoded platform0 3 s1 ack)"
  have s2: "transfers s2 ''xfer_one'' =
      Some (transfer_one\<lparr> t_state := Completing, t_updatedAt := 3, t_receivedChunks := {|0|} \<rparr>)"
    "config s2 = config0" "length (sentMessages s2) = 3"
    by (simp_all add: s2_def ack_def handleDecoded_def handleAck_def createMessage_def s1 config0_simps
        transfer_one_def Let_def emit_def send_def)
  have "alice_completing = s2"
    by (simp add: alice_completing_def one_messages_def s2_def s1_def s0_def acc_def ack_def
        Let_def split: prod.splits)
  then show "transfers alice_completing ''xfer_one'' =
     Some (transfer_one\<lparr> t_state := Completing, t_updatedAt := 3, t_receivedChunks := {|0|} \<rparr>)"
    "config alice_completing = config0"
    "length (sentMessages alice_completing) = 3"
    using s2 by simp_all
qed

lemma offer_b1_simps:
  "o_size (offer_b1 sec ttl) = 3" "o_secret (offer_b1 sec ttl) = sec"
  "o_secretTTL (offer_b1 sec ttl) = ttl" "o_resumeFrom (offer_b1 sec ttl) = None"
  "o_totalChunks (offer_b1 sec ttl) = 2"
  by (simp_all add: offer_b1_def)

lemma offer_from_bob_simps:
  "m_transferId (offer_from_bob sec ttl) = ''xfer_b1''" "m_from (offer_from_bob sec ttl) = ''bob''"
  "m_to (offer_from_bob sec ttl) = ''alice''"
  "m_payload (offer_from_bob sec ttl) = OfferP (offer_b1 sec ttl)"
  by (simp_all add: offer_from_bob_def createMessage_def)

lemma chunk_from_bob_simps:
  "m_transferId (chunk_from_bob i) = ''xfer_b1''" "m_to (chunk_from_bob i) = ''alice''"
  "m_from (chunk_from_bob i) = ''bob''"
  "m_payload (chunk_from_bob i) =
     ChunkP \<lparr> ck_index = i, ck_data = ''x'',
              ck_hash = p_sha256 platform0 (p_base64_decode platform0 ''x'') \<rparr>"
  by (simp_all add: chunk_from_bob_def createMessage_def)

subsection \<open>Messages for another node\<close>

text \<open>
  Claim C7, as the code has it. A text that carries the prefix and decodes to a message
  whose \<open>to\<close> is not this node's \<open>botId\<close> makes \<open>handleMessage\<close> return
  \<open>false\<close> and leaves the whole state, so every transfer, unchanged. A text that
  does not start with the prefix makes it return \<open>false\<close>, the state unchanged.
\<close>

theorem handleMessage_not_addressed:
  "(startsWith text OCFT_PREFIX \<and> decodeFromChat P text = Some msg
       \<and> m_to msg \<noteq> cfg_botId (config s)
      \<longrightarrow> handleMessage P now s fromId text = (Inr False, s))
   \<and> (\<not> startsWith text OCFT_PREFIX \<longrightarrow> handleMessage P now s fromId text = (Inr False, s))"
  by (simp add: handleMessage_def handleDecoded_def)

theorem handleMessage_not_addressed_witness:
  "handleMessage platform0 9 alice0 ''bob'' (OCFT_PREFIX @ ''stray'') = (Inr False, alice0)
   \<and> handleMessage platform0 9 alice0 ''bob'' ''hello'' = (Inr False, alice0)"
proof -
  have 1: "startsWith (OCFT_PREFIX @ ''stray'') OCFT_PREFIX" by (simp add: startsWith_def)
  have 2: "m_to stray_message \<noteq> cfg_botId (config alice0)"
    by (simp add: stray_message_def createMessage_def alice0_def newTransferManager_def config0_def)
  have 3: "\<not> startsWith ''hello'' OCFT_PREFIX" by (simp add: startsWith_def OCFT_PREFIX_def)
  show ?thesis
    using handleMessage_not_addressed [of "OCFT_PREFIX @ ''stray''" platform0 stray_message alice0 9 "''bob''"]
      handleMessage_not_addressed [of "''hello''" platform0 stray_message alice0 9 "''bob''"]
      1 2 3 decode_stray by simp
qed

text \<open>
  The text below carries the prefix and decodes to a message for \<open>carol\<close>; the node
  is \<open>alice\<close>. The call does not return \<open>true\<close>.
\<close>

theorem handleMessage_returns_true_counterexample:
  "startsWith (OCFT_PREFIX @ ''stray'') OCFT_PREFIX
   \<and> decodeFromChat platform0 (OCFT_PREFIX @ ''stray'') = Some stray_message
   \<and> m_to stray_message \<noteq> cfg_botId (config alice0)
   \<and> fst (handleMessage platform0 9 alice0 ''bob'' (OCFT_PREFIX @ ''stray'')) \<noteq> Inr True"
proof -
  have 1: "startsWith (OCFT_PREFIX @ ''stray'') OCFT_PREFIX" by (simp add: startsWith_def)
  have 2: "m_to stray_message \<noteq> cfg_botId (config alice0)"
    by (simp add: stray_message_def createMessage_def alice0_def newTransferManager_def config0_def)
  have "handleMessage platform0 9 alice0 ''bob'' (OCFT_PREFIX @ ''stray'') = (Inr False, alice0)"
    using 1 2 decode_stray by (simp add: handleMessage_def handleDecoded_def)
  then show ?thesis using 1 2 decode_stray by simp
qed

subsection \<open>Sending a chunk\<close>

lemma readChunk_readable:
  "fs path = Some bytes \<Longrightarrow>
   readChunk H fs path i cs =
     Inr \<lparr> c_index = i,
           c_data = subarray bytes (i * cs) (min (i * cs + cs) (int (length bytes))),
           c_hash = H (subarray bytes (i * cs) (min (i * cs + cs) (int (length bytes)))) \<rparr>"
  by (simp add: readChunk_def Let_def)

lemma sendNextChunk_sends:
  assumes "transfers s tid = Some t" and "filePaths s tid = Some path" and "path \<noteq> []"
    and "readChunk (p_sha256 P) (disk s) path index (t_chunkSize t) = Inr c"
  shows "sendNextChunk P now s tid index =
           (None, emit (ChunkSent tid index)
                    (send (t_peerId t)
                       (createMessage tid (cfg_botId (config s)) (t_peerId t)
                          (ChunkP \<lparr> ck_index = index, ck_data = p_base64_encode P (c_data c),
                                    ck_hash = c_hash c \<rparr>) now) s))"
proof -
  have "c_index c = index"
    using assms(4) by (auto simp add: readChunk_def Let_def split: option.splits)
  then show ?thesis using assms by (simp add: sendNextChunk_def)
qed

lemma sendNextChunk_transfers:
  "transfers (snd (sendNextChunk P now s tid index)) = transfers s"
  by (simp add: sendNextChunk_def send_def emit_def Let_def split: option.splits sum.splits)

lemma handleAccept_first:
  assumes "transfers s (m_transferId msg) = Some t" and "t_direction t = Send"
    and "(case ac_resumeFrom ap of None \<Rightarrow> 0 | Some i \<Rightarrow> i) = 0"
    and "filePaths s (m_transferId msg) = Some path" and "path \<noteq> []"
    and "disk s path = Some bytes"
  shows "handleAccept P now s msg ap =
     (None,
      emit (ChunkSent (m_transferId msg) 0)
       (send (t_peerId t)
         (createMessage (m_transferId msg) (cfg_botId (config s)) (t_peerId t)
            (ChunkP \<lparr> ck_index = 0,
                      ck_data = p_base64_encode P
                        (subarray bytes 0 (min (t_chunkSize t) (int (length bytes)))),
                      ck_hash = p_sha256 P
                        (subarray bytes 0 (min (t_chunkSize t) (int (length bytes)))) \<rparr>)
            now)
         (emit (TransferStarted (m_transferId msg))
            (s\<lparr> transfers := (transfers s)(m_transferId msg \<mapsto>
                   t\<lparr> t_state := Transferring, t_updatedAt := now \<rparr>) \<rparr>))))"
proof -
  let ?tid = "m_transferId msg"
  let ?t' = "t\<lparr> t_state := Transferring, t_updatedAt := now \<rparr>"
  let ?s' = "emit (TransferStarted ?tid) (s\<lparr> transfers := (transfers s)(?tid \<mapsto> ?t') \<rparr>)"
  have u: "handleAccept P now s msg ap = sendNextChunk P now ?s' ?tid 0"
    using assms(1-3) by (simp add: handleAccept_def Let_def)
  have tr: "transfers ?s' ?tid = Some ?t'" by (simp add: emit_def)
  have fp: "filePaths ?s' ?tid = Some path" using assms(4) by (simp add: emit_def)
  have rd: "readChunk (p_sha256 P) (disk ?s') path 0 (t_chunkSize ?t') =
     Inr \<lparr> c_index = 0,
           c_data = subarray bytes 0 (min (t_chunkSize t) (int (length bytes))),
           c_hash = p_sha256 P (subarray bytes 0 (min (t_chunkSize t) (int (length bytes)))) \<rparr>"
    using assms(6) readChunk_readable [of "disk s" path bytes "p_sha256 P" 0 "t_chunkSize t"]
    by (simp add: emit_def)
  show ?thesis
    unfolding u sendNextChunk_sends [OF tr fp assms(5) rd]
    by (simp add: emit_def)
qed

lemma handleAck_next:
  assumes "transfers s (m_transferId msg) = Some t" and "t_direction t = Send"
    and "t_state t \<noteq> Completed \<and> t_state t \<noteq> Completing" and "ak_received p"
    and "ak_index p + 1 < t_totalChunks t"
    and "filePaths s (m_transferId msg) = Some path" and "path \<noteq> []"
    and "disk s path = Some bytes"
  shows "handleAck P now s msg p =
     (None,
      emit (ChunkSent (m_transferId msg) (ak_index p + 1))
       (send (t_peerId t)
         (createMessage (m_transferId msg) (cfg_botId (config s)) (t_peerId t)
            (ChunkP \<lparr> ck_index = ak_index p + 1,
                      ck_data = p_base64_encode P
                        (subarray bytes ((ak_index p + 1) * t_chunkSize t)
                           (min ((ak_index p + 1) * t_chunkSize t + t_chunkSize t) (int (length bytes)))),
                      ck_hash = p_sha256 P
                        (subarray bytes ((ak_index p + 1) * t_chunkSize t)
                           (min ((ak_index p + 1) * t_chunkSize t + t_chunkSize t) (int (length bytes)))) \<rparr>)
            now)
         (emit (AckReceived (m_transferId msg) (ak_index p))
            (s\<lparr> transfers := (transfers s)(m_transferId msg \<mapsto>
                   t\<lparr> t_receivedChunks := finsert (ak_index p) (t_receivedChunks t),
                      t_updatedAt := now \<rparr>) \<rparr>))))"
proof -
  let ?tid = "m_transferId msg"
  let ?t' = "t\<lparr> t_receivedChunks := finsert (ak_index p) (t_receivedChunks t), t_updatedAt := now \<rparr>"
  let ?s' = "emit (AckReceived ?tid (ak_index p)) (s\<lparr> transfers := (transfers s)(?tid \<mapsto> ?t') \<rparr>)"
  have u: "handleAck P now s msg p = sendNextChunk P now ?s' ?tid (ak_index p + 1)"
    using assms(1-5) by (simp add: handleAck_def Let_def)
  have tr: "transfers ?s' ?tid = Some ?t'" by (simp add: emit_def)
  have fp: "filePaths ?s' ?tid = Some path" using assms(6) by (simp add: emit_def)
  have rd: "readChunk (p_sha256 P) (disk ?s') path (ak_index p + 1) (t_chunkSize ?t') =
     Inr \<lparr> c_index = ak_index p + 1,
           c_data = subarray bytes ((ak_index p + 1) * t_chunkSize t)
                      (min ((ak_index p + 1) * t_chunkSize t + t_chunkSize t) (int (length bytes))),
           c_hash = p_sha256 P (subarray bytes ((ak_index p + 1) * t_chunkSize t)
                      (min ((ak_index p + 1) * t_chunkSize t + t_chunkSize t) (int (length bytes)))) \<rparr>"
    using assms(8) readChunk_readable [of "disk s" path bytes "p_sha256 P" "ak_index p + 1" "t_chunkSize t"]
    by (simp add: emit_def)
  show ?thesis
    unfolding u sendNextChunk_sends [OF tr fp assms(7) rd]
    by (simp add: emit_def)
qed

lemma handleAck_last:
  assumes "transfers s (m_transferId msg) = Some t" and "t_direction t = Send"
    and "t_state t \<noteq> Completed \<and> t_state t \<noteq> Completing" and "ak_received p"
    and "\<not> ak_index p + 1 < t_totalChunks t"
  shows "handleAck P now s msg p =
     (None,
      send (t_peerId t)
        (createMessage (m_transferId msg) (cfg_botId (config s)) (t_peerId t)
           (CompleteP \<lparr> cp_totalChunks = t_totalChunks t, cp_hash = t_hash t \<rparr>) now)
        (emit (AckReceived (m_transferId msg) (ak_index p))
           (s\<lparr> transfers := (transfers s)(m_transferId msg \<mapsto>
                  t\<lparr> t_receivedChunks := finsert (ak_index p) (t_receivedChunks t),
                     t_updatedAt := now, t_state := Completing \<rparr>) \<rparr>)))"
  using assms by (simp add: handleAck_def Let_def emit_def send_def)

lemma handleDecoded_ack:
  assumes "m_to msg = cfg_botId (config s)" and "m_payload msg = AckP p"
    and "handleAck P now s msg p = (None, s')"
  shows "handleDecoded P now s msg = (Inr True, s')"
  using assms by (simp add: handleDecoded_def)

lemma handleDecoded_snd:
  "m_to msg = cfg_botId (config s) \<Longrightarrow>
   snd (handleDecoded P now s msg) =
     snd (case m_payload msg of
            OfferP p \<Rightarrow> handleOffer now s msg p
          | AcceptP p \<Rightarrow> handleAccept P now s msg p
          | RejectP p \<Rightarrow> handleReject now s msg p
          | ChunkP p \<Rightarrow> handleChunk P now s msg p
          | AckP p \<Rightarrow> handleAck P now s msg p
          | CompleteP p \<Rightarrow> handleComplete P now s msg p
          | ErrorP p \<Rightarrow> handleError now s msg p)"
  by (simp add: handleDecoded_def split: prod.splits option.splits)

subsection \<open>Accept\<close>

text \<open>
  Claim C10. Handling an accept for a tracked transfer of direction \<open>send\<close> sets its
  state to \<open>transferring\<close> (and its \<open>updatedAt\<close>), whatever the state was before.
  When the file of the transfer is registered and readable, nothing is thrown and exactly
  one message is sent: the chunk at the resume index of the accept (0 by default).
\<close>

theorem handleAccept_restarts:
  assumes "transfers s (m_transferId msg) = Some t" and "t_direction t = Send"
  shows "transfers (snd (handleAccept P now s msg payload)) (m_transferId msg)
           = Some (t\<lparr> t_state := Transferring, t_updatedAt := now \<rparr>)
     \<and> (\<forall>path c. filePaths s (m_transferId msg) = Some path \<and> path \<noteq> []
            \<and> readChunk (p_sha256 P) (disk s) path
                 (case ac_resumeFrom payload of None \<Rightarrow> 0 | Some i \<Rightarrow> i) (t_chunkSize t) = Inr c
          \<longrightarrow> fst (handleAccept P now s msg payload) = None
            \<and> sentMessages (snd (handleAccept P now s msg payload)) =
                sentMessages s @
                 [(t_peerId t,
                   createMessage (m_transferId msg) (cfg_botId (config s)) (t_peerId t)
                     (ChunkP \<lparr> ck_index = (case ac_resumeFrom payload of None \<Rightarrow> 0 | Some i \<Rightarrow> i),
                               ck_data = p_base64_encode P (c_data c),
                               ck_hash = c_hash c \<rparr>) now)])"
proof -
  let ?tid = "m_transferId msg"
  let ?start = "case ac_resumeFrom payload of None \<Rightarrow> 0 | Some i \<Rightarrow> i"
  let ?t' = "t\<lparr> t_state := Transferring, t_updatedAt := now \<rparr>"
  let ?s' = "emit (TransferStarted ?tid) (s\<lparr> transfers := (transfers s)(?tid \<mapsto> ?t') \<rparr>)"
  have unfold: "handleAccept P now s msg payload = sendNextChunk P now ?s' ?tid ?start"
    using assms by (simp add: handleAccept_def Let_def)
  have tr: "transfers ?s' ?tid = Some ?t'" by (simp add: emit_def)
  have first: "transfers (snd (handleAccept P now s msg payload)) ?tid = Some ?t'"
    unfolding unfold by (simp only: sendNextChunk_transfers tr)
  have second: "fst (handleAccept P now s msg payload) = None
      \<and> sentMessages (snd (handleAccept P now s msg payload)) =
          sentMessages s @
           [(t_peerId t,
             createMessage ?tid (cfg_botId (config s)) (t_peerId t)
               (ChunkP \<lparr> ck_index = ?start, ck_data = p_base64_encode P (c_data c),
                         ck_hash = c_hash c \<rparr>) now)]"
    if p: "filePaths s ?tid = Some path" "path \<noteq> []"
      and r: "readChunk (p_sha256 P) (disk s) path ?start (t_chunkSize t) = Inr c" for path c
  proof -
    have fp: "filePaths ?s' ?tid = Some path" using p(1) by (simp add: emit_def)
    have rd: "readChunk (p_sha256 P) (disk ?s') path ?start (t_chunkSize ?t') = Inr c"
      using r by (simp add: emit_def)
    show ?thesis
      unfolding unfold sendNextChunk_sends [OF tr fp p(2) rd]
      by (simp add: emit_def send_def)
  qed
  show ?thesis using first second by blast
qed

theorem handleAccept_restarts_witness:
  "map_option t_state (transfers alice_failed ''xfer_abc'') = Some Failed
   \<and> map_option t_state
        (transfers (snd (handleAccept platform0 3 alice_failed accept_from_bob
                           \<lparr> ac_ready = True, ac_resumeFrom = None \<rparr>)) ''xfer_abc'')
       = Some Transferring
   \<and> fst (handleAccept platform0 3 alice_failed accept_from_bob
             \<lparr> ac_ready = True, ac_resumeFrom = None \<rparr>) = None
   \<and> sentMessages (snd (handleAccept platform0 3 alice_failed accept_from_bob
                           \<lparr> ac_ready = True, ac_resumeFrom = None \<rparr>)) =
       sentMessages alice_failed @
         [(''bob'', createMessage ''xfer_abc'' ''alice'' ''bob''
                     (ChunkP \<lparr> ck_index = 0, ck_data = p_base64_encode platform0 [1, 2],
                               ck_hash = digest0 [1, 2] \<rparr>) 3)]"
proof -
  let ?t = "transfer_abc\<lparr> t_state := Failed, t_error := Some (Text ''gone''), t_updatedAt := 2 \<rparr>"
  have 1: "transfers alice_failed (m_transferId accept_from_bob) = Some ?t"
    by (simp add: from_bob_simps alice_failed_simps)
  have 2: "t_direction ?t = Send" by (simp add: transfer_abc_simps)
  have 3: "readChunk (p_sha256 platform0) (disk alice_failed) ''d/a.txt''
             (case ac_resumeFrom \<lparr> ac_ready = True, ac_resumeFrom = None \<rparr> of None \<Rightarrow> 0 | Some i \<Rightarrow> i)
             (t_chunkSize ?t)
           = Inr \<lparr> c_index = 0, c_data = [1, 2], c_hash = digest0 [1, 2] \<rparr>"
    by (simp add: readChunk_def alice_failed_simps disk0_def transfer_abc_simps platform0_def
        subarray_def adjustOffset_def Let_def)
  show ?thesis
    using handleAccept_restarts [OF 1 2, of platform0 3 "\<lparr> ac_ready = True, ac_resumeFrom = None \<rparr>"] 3
    by (simp add: from_bob_simps alice_failed_simps transfer_abc_simps config0_def)
qed

subsection \<open>Stop and wait\<close>

lemma deliver_append:
  "deliver P s (xs @ ys) =
     (let (r1, s1) = deliver P s xs; (r2, s2) = deliver P s1 ys in (r1 @ r2, s2))"
  by (induction xs arbitrary: s) (auto simp add: Let_def split: prod.splits)

lemma acks_run:
  assumes fp: "filePaths s1 tid = Some path" "path \<noteq> []" "disk s1 path = Some bytes"
    and t1: "transfers s1 tid = Some t1" "t_direction t1 = Send" "t_state t1 = Transferring"
    and N: "0 < t_totalChunks t1"
  shows "length acks \<le> nat (t_totalChunks t1) \<Longrightarrow>
    (\<forall>i < length acks. m_transferId (snd (acks ! i)) = tid
         \<and> m_to (snd (acks ! i)) = cfg_botId (config s1)
         \<and> (\<exists>p. m_payload (snd (acks ! i)) = AckP p \<and> ak_index p = int i \<and> ak_received p)) \<Longrightarrow>
    \<exists>s' t'. deliver P s1 acks = (replicate (length acks) (Inr True), s')
       \<and> transfers s' tid = Some t' \<and> t_direction t' = Send
       \<and> t_totalChunks t' = t_totalChunks t1 \<and> t_chunkSize t' = t_chunkSize t1
       \<and> t_peerId t' = t_peerId t1 \<and> t_hash t' = t_hash t1
       \<and> t_state t' = (if int (length acks) = t_totalChunks t1 then Completing else Transferring)
       \<and> filePaths s' tid = Some path \<and> disk s' = disk s1 \<and> config s' = config s1
       \<and> map (\<lambda>(receiver, m). (receiver, m_payload m)) (sentMessages s') =
           map (\<lambda>(receiver, m). (receiver, m_payload m)) (sentMessages s1)
           @ map (\<lambda>i. (t_peerId t1,
                   ChunkP \<lparr> ck_index = int i,
                     ck_data = p_base64_encode P
                       (subarray bytes (int i * t_chunkSize t1)
                          (min (int i * t_chunkSize t1 + t_chunkSize t1) (int (length bytes)))),
                     ck_hash = p_sha256 P
                       (subarray bytes (int i * t_chunkSize t1)
                          (min (int i * t_chunkSize t1 + t_chunkSize t1) (int (length bytes)))) \<rparr>))
               [1 ..< min (length acks + 1) (nat (t_totalChunks t1))]
           @ (if int (length acks) = t_totalChunks t1
              then [(t_peerId t1, CompleteP \<lparr> cp_totalChunks = t_totalChunks t1, cp_hash = t_hash t1 \<rparr>)]
              else [])"
proof (induction acks rule: rev_induct)
  case Nil
  show ?case using t1 fp N by simp
next
  case (snoc x xs)
  let ?N = "t_totalChunks t1"
  let ?k = "length xs"
  let ?pay = "\<lambda>(receiver, m). (receiver, m_payload m)"
  let ?chunk = "\<lambda>i. (t_peerId t1,
                   ChunkP \<lparr> ck_index = int i,
                     ck_data = p_base64_encode P
                       (subarray bytes (int i * t_chunkSize t1)
                          (min (int i * t_chunkSize t1 + t_chunkSize t1) (int (length bytes)))),
                     ck_hash = p_sha256 P
                       (subarray bytes (int i * t_chunkSize t1)
                          (min (int i * t_chunkSize t1 + t_chunkSize t1) (int (length bytes)))) \<rparr>)"
  have klt: "?k < nat ?N" using snoc.prems(1) by simp
  then have kN: "int ?k \<noteq> ?N" and kN': "int ?k < ?N" by auto
  have len: "length xs \<le> nat ?N" using klt by simp
  have pre: "\<forall>i < length xs. m_transferId (snd (xs ! i)) = tid
         \<and> m_to (snd (xs ! i)) = cfg_botId (config s1)
         \<and> (\<exists>p. m_payload (snd (xs ! i)) = AckP p \<and> ak_index p = int i \<and> ak_received p)"
  proof (intro allI impI)
    fix i assume i: "i < length xs"
    then have "(xs @ [x]) ! i = xs ! i" by (simp add: nth_append)
    moreover have "i < length (xs @ [x])" using i by simp
    ultimately show "m_transferId (snd (xs ! i)) = tid
         \<and> m_to (snd (xs ! i)) = cfg_botId (config s1)
         \<and> (\<exists>p. m_payload (snd (xs ! i)) = AckP p \<and> ak_index p = int i \<and> ak_received p)"
      using snoc.prems(2) by metis
  qed
  from snoc.IH [OF len pre] obtain s' t' where
    run: "deliver P s1 xs = (replicate ?k (Inr True), s')"
    and tr: "transfers s' tid = Some t'" and dir: "t_direction t' = Send"
    and tot: "t_totalChunks t' = ?N" and cs: "t_chunkSize t' = t_chunkSize t1"
    and peer: "t_peerId t' = t_peerId t1" and h: "t_hash t' = t_hash t1"
    and st: "t_state t' = Transferring"
    and fp': "filePaths s' tid = Some path" and dk: "disk s' = disk s1" and cf: "config s' = config s1"
    and sent: "map ?pay (sentMessages s') =
               map ?pay (sentMessages s1) @ map ?chunk [1 ..< min (?k + 1) (nat ?N)]"
    using kN by auto
  obtain now msg where x: "x = (now, msg)" by (cases x)
  have "(xs @ [x]) ! ?k = x" by simp
  then obtain p where msg: "m_transferId msg = tid" "m_to msg = cfg_botId (config s1)"
    "m_payload msg = AckP p" "ak_index p = int ?k" "ak_received p"
    using snoc.prems(2) x by (metis length_append_singleton lessI snd_conv)
  have open_state: "t_state t' \<noteq> Completed \<and> t_state t' \<noteq> Completing" using st by simp
  have tr': "transfers s' (m_transferId msg) = Some t'" using tr msg(1) by simp
  have fpm: "filePaths s' (m_transferId msg) = Some path" using fp' msg(1) by simp
  have dkp: "disk s' path = Some bytes" using dk fp(3) by simp
  have to: "m_to msg = cfg_botId (config s')" using msg(2) cf by simp
  have step: "deliver P s1 (xs @ [x]) = (replicate ?k (Inr True) @ [fst (handleDecoded P now s' msg)],
                                           snd (handleDecoded P now s' msg))"
    using run x by (simp add: deliver_append Let_def split: prod.splits)
  show ?case
  proof (cases "int ?k + 1 < ?N")
    case True
    have more: "ak_index p + 1 < t_totalChunks t'" using True msg(4) tot by simp
    note nxt = handleAck_next [OF tr' dir open_state msg(5) more fpm fp(2) dkp, of P now]
    let ?s'' = "snd (handleAck P now s' msg p)"
    have hd: "handleDecoded P now s' msg = (Inr True, ?s'')"
      using nxt by (intro handleDecoded_ack [OF to msg(3)]) simp
    have r: "deliver P s1 (xs @ [x]) = (replicate (length (xs @ [x])) (Inr True), ?s'')"
      using step hd by (simp add: replicate_append_same)
    have a: "transfers ?s'' tid =
               Some (t'\<lparr> t_receivedChunks := finsert (ak_index p) (t_receivedChunks t'),
                        t_updatedAt := now \<rparr>)"
      unfolding nxt using msg(1) by (simp add: emit_def send_def)
    have b: "filePaths ?s'' tid = Some path" "disk ?s'' = disk s1" "config ?s'' = config s1"
      unfolding nxt using fp' dk cf by (simp_all add: emit_def send_def)
    have c: "map ?pay (sentMessages ?s'') = map ?pay (sentMessages s') @ [?chunk (?k + 1)]"
      unfolding nxt using msg(1,4) cs peer by (simp add: emit_def send_def createMessage_def add.commute)
    have range: "[1 ..< min (length (xs @ [x]) + 1) (nat ?N)] = [1 ..< min (?k + 1) (nat ?N)] @ [?k + 1]"
    proof -
      have "?k + 1 < nat ?N" using True by linarith
      then show ?thesis by (simp add: min_def)
    qed
    have ne: "int (length (xs @ [x])) \<noteq> ?N" using True by simp
    have d: "map ?pay (sentMessages ?s'') =
           map ?pay (sentMessages s1) @ map ?chunk [1 ..< min (length (xs @ [x]) + 1) (nat ?N)]
           @ (if int (length (xs @ [x])) = ?N
              then [(t_peerId t1, CompleteP \<lparr> cp_totalChunks = ?N, cp_hash = t_hash t1 \<rparr>)]
              else [])"
      unfolding c sent range using ne by simp
    show ?thesis
      using r a b d dir tot cs peer h st ne
      by (intro exI [where x = ?s''] exI [where x = "t'\<lparr> t_receivedChunks := finsert (ak_index p) (t_receivedChunks t'), t_updatedAt := now \<rparr>"]) simp
  next
    case False
    then have last: "int ?k + 1 = ?N" using kN' by linarith
    have nomore: "\<not> ak_index p + 1 < t_totalChunks t'" using False msg(4) tot by simp
    note fin = handleAck_last [OF tr' dir open_state msg(5) nomore, of P now]
    let ?s'' = "snd (handleAck P now s' msg p)"
    have hd: "handleDecoded P now s' msg = (Inr True, ?s'')"
      using fin by (intro handleDecoded_ack [OF to msg(3)]) simp
    have r: "deliver P s1 (xs @ [x]) = (replicate (length (xs @ [x])) (Inr True), ?s'')"
      using step hd by (simp add: replicate_append_same)
    have a: "transfers ?s'' tid =
               Some (t'\<lparr> t_receivedChunks := finsert (ak_index p) (t_receivedChunks t'),
                        t_updatedAt := now, t_state := Completing \<rparr>)"
      unfolding fin using msg(1) by (simp add: emit_def send_def)
    have b: "filePaths ?s'' tid = Some path" "disk ?s'' = disk s1" "config ?s'' = config s1"
      unfolding fin using fp' dk cf by (simp_all add: emit_def send_def)
    have c: "map ?pay (sentMessages ?s'') = map ?pay (sentMessages s') @
                [(t_peerId t1, CompleteP \<lparr> cp_totalChunks = ?N, cp_hash = t_hash t1 \<rparr>)]"
      unfolding fin using tot h peer by (simp add: emit_def send_def createMessage_def)
    have range: "[1 ..< min (length (xs @ [x]) + 1) (nat ?N)] = [1 ..< min (?k + 1) (nat ?N)]"
    proof -
      have "?k + 1 = nat ?N" using last by linarith
      then show ?thesis by (simp add: min_def)
    qed
    have eq: "int (length (xs @ [x])) = ?N" using last by simp
    have d: "map ?pay (sentMessages ?s'') =
           map ?pay (sentMessages s1) @ map ?chunk [1 ..< min (length (xs @ [x]) + 1) (nat ?N)]
           @ (if int (length (xs @ [x])) = ?N
              then [(t_peerId t1, CompleteP \<lparr> cp_totalChunks = ?N, cp_hash = t_hash t1 \<rparr>)]
              else [])"
      unfolding c sent range using eq by simp
    show ?thesis
      using r a b d dir tot cs peer h eq
      by (intro exI [where x = ?s''] exI [where x = "t'\<lparr> t_receivedChunks := finsert (ak_index p) (t_receivedChunks t'), t_updatedAt := now, t_state := Completing \<rparr>"]) simp
  qed
qed

lemma accept_then_acks:
  assumes t: "transfers s tid = Some t" "t_direction t = Send" "0 < t_totalChunks t"
    and fp: "filePaths s tid = Some path" "path \<noteq> []" "disk s path = Some bytes"
    and acc: "m_transferId accept = tid" "m_to accept = cfg_botId (config s)"
      "m_payload accept = AcceptP ap" "(case ac_resumeFrom ap of None \<Rightarrow> 0 | Some i \<Rightarrow> i) = 0"
    and len: "length acks \<le> nat (t_totalChunks t)"
    and acks: "\<forall>i < length acks. m_transferId (snd (acks ! i)) = tid
         \<and> m_to (snd (acks ! i)) = cfg_botId (config s)
         \<and> (\<exists>p. m_payload (snd (acks ! i)) = AckP p \<and> ak_index p = int i \<and> ak_received p)"
  shows "\<exists>s' t'. deliver P s ((now, accept) # acks) = (replicate (length acks + 1) (Inr True), s')
       \<and> transfers s' tid = Some t'
       \<and> t_state t' = (if int (length acks) = t_totalChunks t then Completing else Transferring)
       \<and> map (\<lambda>(receiver, m). (receiver, m_payload m)) (sentMessages s') =
           map (\<lambda>(receiver, m). (receiver, m_payload m)) (sentMessages s)
           @ map (\<lambda>i. (t_peerId t,
                   ChunkP \<lparr> ck_index = int i,
                     ck_data = p_base64_encode P
                       (subarray bytes (int i * t_chunkSize t)
                          (min (int i * t_chunkSize t + t_chunkSize t) (int (length bytes)))),
                     ck_hash = p_sha256 P
                       (subarray bytes (int i * t_chunkSize t)
                          (min (int i * t_chunkSize t + t_chunkSize t) (int (length bytes)))) \<rparr>))
               [0 ..< min (length acks + 1) (nat (t_totalChunks t))]
           @ (if int (length acks) = t_totalChunks t
              then [(t_peerId t, CompleteP \<lparr> cp_totalChunks = t_totalChunks t, cp_hash = t_hash t \<rparr>)]
              else [])"
proof -
  let ?pay = "\<lambda>(receiver, m). (receiver, m_payload m)"
  let ?chunk = "\<lambda>i. (t_peerId t,
                   ChunkP \<lparr> ck_index = int i,
                     ck_data = p_base64_encode P
                       (subarray bytes (int i * t_chunkSize t)
                          (min (int i * t_chunkSize t + t_chunkSize t) (int (length bytes)))),
                     ck_hash = p_sha256 P
                       (subarray bytes (int i * t_chunkSize t)
                          (min (int i * t_chunkSize t + t_chunkSize t) (int (length bytes)))) \<rparr>)"
  let ?t1 = "t\<lparr> t_state := Transferring, t_updatedAt := now \<rparr>"
  let ?s1 = "snd (handleAccept P now s accept ap)"
  have tr: "transfers s (m_transferId accept) = Some t" using t(1) acc(1) by simp
  have fpa: "filePaths s (m_transferId accept) = Some path" using fp(1) acc(1) by simp
  note first = handleAccept_first [OF tr t(2) acc(4) fpa fp(2) fp(3), of P now]
  have hd: "handleDecoded P now s accept = (Inr True, ?s1)"
    using acc(2,3) first by (simp add: handleDecoded_def)
  have s1: "transfers ?s1 tid = Some ?t1" "filePaths ?s1 tid = Some path"
    "disk ?s1 path = Some bytes" "config ?s1 = config s"
    unfolding first using acc(1) fp by (simp_all add: emit_def send_def)
  have sent1: "map ?pay (sentMessages ?s1) = map ?pay (sentMessages s) @ [?chunk 0]"
    unfolding first by (simp add: emit_def send_def createMessage_def)
  have t1: "t_direction ?t1 = Send" "t_state ?t1 = Transferring" "0 < t_totalChunks ?t1"
    using t by simp_all
  have len1: "length acks \<le> nat (t_totalChunks ?t1)" using len by simp
  have acks1: "\<forall>i < length acks. m_transferId (snd (acks ! i)) = tid
         \<and> m_to (snd (acks ! i)) = cfg_botId (config ?s1)
         \<and> (\<exists>p. m_payload (snd (acks ! i)) = AckP p \<and> ak_index p = int i \<and> ak_received p)"
    using acks s1(4) by simp
  from acks_run [OF s1(2) fp(2) s1(3) s1(1) t1, of acks P, OF len1 acks1]
  obtain s' t' where
    run: "deliver P ?s1 acks = (replicate (length acks) (Inr True), s')"
    and tr': "transfers s' tid = Some t'"
    and st: "t_state t' = (if int (length acks) = t_totalChunks t then Completing else Transferring)"
    and sent: "map ?pay (sentMessages s') =
           map ?pay (sentMessages ?s1)
           @ map ?chunk [1 ..< min (length acks + 1) (nat (t_totalChunks t))]
           @ (if int (length acks) = t_totalChunks t
              then [(t_peerId t, CompleteP \<lparr> cp_totalChunks = t_totalChunks t, cp_hash = t_hash t \<rparr>)]
              else [])"
    by auto
  have all: "deliver P s ((now, accept) # acks) = (replicate (length acks + 1) (Inr True), s')"
    using hd run by simp
  have range: "[0 ..< min (length acks + 1) (nat (t_totalChunks t))]
                 = 0 # [1 ..< min (length acks + 1) (nat (t_totalChunks t))]"
  proof -
    have "0 < min (length acks + 1) (nat (t_totalChunks t))" using t(3) by simp
    then show ?thesis by (simp add: upt_conv_Cons)
  qed
  have sent': "map ?pay (sentMessages s') =
           map ?pay (sentMessages s)
           @ map ?chunk [0 ..< min (length acks + 1) (nat (t_totalChunks t))]
           @ (if int (length acks) = t_totalChunks t
              then [(t_peerId t, CompleteP \<lparr> cp_totalChunks = t_totalChunks t, cp_hash = t_hash t \<rparr>)]
              else [])"
    unfolding sent sent1 range by simp
  show ?thesis
    using all tr' st sent' by (intro exI [where x = s'] exI [where x = t']) simp
qed

text \<open>
  Stop and wait, for \<open>N \<ge> 1\<close>. A transfer of direction \<open>send\<close> with
  \<open>totalChunks = N\<close>, \<open>N \<ge> 1\<close>,
  whose file is registered and readable, receives an accept (resume index 0) and then the
  first \<open>k \<le> N\<close> acks with \<open>received = true\<close> for the indices \<open>0, 1, ..., k - 1\<close>,
  in order. Every call returns \<open>true\<close>. The messages sent are, in this order, the
  chunks \<open>0 .. min k (N - 1)\<close>, one for the accept and one for each ack but the
  \<open>N\<close>-th, followed by the complete message when \<open>k = N\<close>. The state is
  \<open>transferring\<close> while \<open>k < N\<close> and \<open>completing\<close> when \<open>k = N\<close>.
\<close>

theorem stop_and_wait:
  assumes "transfers s tid = Some t" and "t_direction t = Send" and "0 < t_totalChunks t"
    and "filePaths s tid = Some path" and "path \<noteq> []" and "disk s path = Some bytes"
    and "m_transferId accept = tid" and "m_to accept = cfg_botId (config s)"
    and "m_payload accept = AcceptP ap"
    and "(case ac_resumeFrom ap of None \<Rightarrow> 0 | Some i \<Rightarrow> i) = 0"
    and "length acks \<le> nat (t_totalChunks t)"
    and "\<forall>i < length acks. m_transferId (snd (acks ! i)) = tid
         \<and> m_to (snd (acks ! i)) = cfg_botId (config s)
         \<and> (\<exists>p. m_payload (snd (acks ! i)) = AckP p \<and> ak_index p = int i \<and> ak_received p)"
  shows "\<exists>s' t'. deliver P s ((now, accept) # acks) = (replicate (length acks + 1) (Inr True), s')
       \<and> transfers s' tid = Some t'
       \<and> t_state t' = (if int (length acks) = t_totalChunks t then Completing else Transferring)
       \<and> map (\<lambda>(receiver, m). (receiver, m_payload m)) (sentMessages s') =
           map (\<lambda>(receiver, m). (receiver, m_payload m)) (sentMessages s)
           @ map (\<lambda>i. (t_peerId t,
                   ChunkP \<lparr> ck_index = int i,
                     ck_data = p_base64_encode P
                       (subarray bytes (int i * t_chunkSize t)
                          (min (int i * t_chunkSize t + t_chunkSize t) (int (length bytes)))),
                     ck_hash = p_sha256 P
                       (subarray bytes (int i * t_chunkSize t)
                          (min (int i * t_chunkSize t + t_chunkSize t) (int (length bytes)))) \<rparr>))
               [0 ..< min (length acks + 1) (nat (t_totalChunks t))]
           @ (if int (length acks) = t_totalChunks t
              then [(t_peerId t, CompleteP \<lparr> cp_totalChunks = t_totalChunks t, cp_hash = t_hash t \<rparr>)]
              else [])"
  using assms by (rule accept_then_acks)

theorem stop_and_wait_witness:
  "\<exists>s' t'. deliver platform0 alice_offered
              [(3, accept_from_bob), (4, ack_from_bob 0), (5, ack_from_bob 1), (6, ack_from_bob 2)]
            = ([Inr True, Inr True, Inr True, Inr True], s')
     \<and> transfers s' ''xfer_abc'' = Some t' \<and> t_state t' = Completing
     \<and> map (\<lambda>(receiver, m). (receiver, m_payload m)) (sentMessages s') =
         map (\<lambda>(receiver, m). (receiver, m_payload m)) (sentMessages alice_offered)
         @ [(''bob'', ChunkP \<lparr> ck_index = 0, ck_data = p_base64_encode platform0 [1, 2], ck_hash = digest0 [1, 2] \<rparr>),
            (''bob'', ChunkP \<lparr> ck_index = 1, ck_data = p_base64_encode platform0 [3, 4], ck_hash = digest0 [3, 4] \<rparr>),
            (''bob'', ChunkP \<lparr> ck_index = 2, ck_data = p_base64_encode platform0 [5], ck_hash = digest0 [5] \<rparr>),
            (''bob'', CompleteP \<lparr> cp_totalChunks = 3, cp_hash = digest0 [1, 2, 3, 4, 5] \<rparr>)]"
proof -
  let ?acks = "[(4, ack_from_bob 0), (5, ack_from_bob 1), (6, ack_from_bob 2)]"
  have 1: "disk alice_offered ''d/a.txt'' = Some [1, 2, 3, 4, 5]"
    by (simp add: alice_offered_simps disk0_def)
  have 2: "m_to accept_from_bob = cfg_botId (config alice_offered)"
    by (simp add: alice_offered_simps from_bob_simps config0_def)
  have 3: "(case ac_resumeFrom \<lparr> ac_ready = True, ac_resumeFrom = None \<rparr> of None \<Rightarrow> 0 | Some i \<Rightarrow> i) = (0::int)"
    by simp
  have 4: "length ?acks \<le> nat (t_totalChunks transfer_abc)" by (simp add: transfer_abc_simps)
  have 5: "\<forall>i < length ?acks. m_transferId (snd (?acks ! i)) = ''xfer_abc''
         \<and> m_to (snd (?acks ! i)) = cfg_botId (config alice_offered)
         \<and> (\<exists>p. m_payload (snd (?acks ! i)) = AckP p \<and> ak_index p = int i \<and> ak_received p)"
    by (auto simp add: less_Suc_eq nth_Cons' from_bob_simps alice_offered_simps config0_def numeral_3_eq_3)
  have 6: "(0::int) < t_totalChunks transfer_abc" by (simp add: transfer_abc_simps)
  have 7: "''d/a.txt'' \<noteq> []" by simp
  have up: "[0 ..< 3] = [0, 1, 2::nat]" by (simp add: upt_rec)
  show ?thesis
    using stop_and_wait [OF alice_offered_simps(1) transfer_abc_simps(1) 6 alice_offered_simps(2) 7 1
        from_bob_simps(1) 2 from_bob_simps(3) 3 4 5, of platform0 3]
    by (simp add: transfer_abc_simps platform0_def pieces_abc up numeral_eq_Suc)
qed

subsection \<open>Stop and wait for an empty file\<close>

lemma alice_offered_nil_simps:
  "transfers alice_offered_nil ''xfer_nil'' = Some transfer_nil"
  "filePaths alice_offered_nil ''xfer_nil'' = Some ''d/e.txt''"
  "disk alice_offered_nil = disk2"
  "config alice_offered_nil = config0"
  by (simp_all add: alice_offered_nil_def sendFile_def newTransferManager_def config0_def
      disk2_def platform0_def getFileInfo_def Let_def ceil_div_def split_pop_def toLowerCase_def
      mimeTypes_def emit_def send_def transfer_nil_def)

lemma accept_nil_simps:
  "m_transferId accept_nil = ''xfer_nil''" "m_to accept_nil = ''alice''"
  "m_payload accept_nil = AcceptP \<lparr> ac_ready = True, ac_resumeFrom = None \<rparr>"
  by (simp_all add: accept_nil_def createMessage_def)

lemma transfer_nil_simps:
  "t_direction transfer_nil = Send" "t_totalChunks transfer_nil = 0"
  "t_chunkSize transfer_nil = 2" "t_peerId transfer_nil = ''bob''"
  by (simp_all add: transfer_nil_def)

text \<open>
  Claim C2, at \<open>N = 0\<close>. \<open>sendFile\<close> on an empty file makes a transfer with
  \<open>totalChunks = 0\<close>. When the accept arrives, \<open>handleAccept\<close> sends the chunk at the
  resume index without comparing it with \<open>totalChunks\<close> (\<open>handleAck\<close> compares the
  next index with \<open>totalChunks\<close> before it sends): a chunk with index 0 and no data is
  sent, and the state is \<open>transferring\<close>, with no ack handled and none due.
\<close>

theorem stop_and_wait_empty_file:
  "map_option t_totalChunks (transfers alice_offered_nil ''xfer_nil'') = Some 0
   \<and> fst (deliver platform0 alice_offered_nil [(2, accept_nil)]) = [Inr True]
   \<and> map_option t_state
        (transfers (snd (deliver platform0 alice_offered_nil [(2, accept_nil)])) ''xfer_nil'')
       = Some Transferring
   \<and> sentMessages (snd (deliver platform0 alice_offered_nil [(2, accept_nil)])) =
       sentMessages alice_offered_nil @
         [(''bob'', createMessage ''xfer_nil'' ''alice'' ''bob''
                     (ChunkP \<lparr> ck_index = 0, ck_data = p_base64_encode platform0 [],
                               ck_hash = digest0 [] \<rparr>) 2)]"
proof -
  have 1: "transfers alice_offered_nil (m_transferId accept_nil) = Some transfer_nil"
    by (simp add: accept_nil_simps alice_offered_nil_simps)
  have 2: "(case ac_resumeFrom \<lparr> ac_ready = True, ac_resumeFrom = None \<rparr> of None \<Rightarrow> 0 | Some i \<Rightarrow> i) = (0::int)"
    by simp
  have 3: "filePaths alice_offered_nil (m_transferId accept_nil) = Some ''d/e.txt''"
    by (simp add: accept_nil_simps alice_offered_nil_simps)
  have 4: "''d/e.txt'' \<noteq> []" by simp
  have 5: "disk alice_offered_nil ''d/e.txt'' = Some []"
    by (simp add: alice_offered_nil_simps disk2_def)
  note acc = handleAccept_first [OF 1 transfer_nil_simps(1) 2 3 4 5, of platform0 2]
  have dec: "handleDecoded platform0 2 alice_offered_nil accept_nil =
      (Inr True, snd (handleAccept platform0 2 alice_offered_nil accept_nil
                        \<lparr> ac_ready = True, ac_resumeFrom = None \<rparr>))"
    by (simp add: handleDecoded_def accept_nil_simps alice_offered_nil_simps config0_simps acc)
  show ?thesis
    unfolding deliver.simps dec acc
    by (simp add: alice_offered_nil_simps transfer_nil_simps accept_nil_simps config0_simps
        emit_def send_def subarray_def adjustOffset_def Let_def platform0_def)
qed

text \<open>
  The node that receives these messages stores chunk 0, so its assembler holds one chunk
  for \<open>totalChunks = 0\<close>; \<open>isComplete\<close> is false when the complete message arrives
  and the transfer fails.
\<close>

lemma nil_simps:
  "m_to offer_nil = ''alice''" "m_to chunk_nil = ''alice''" "m_to complete_nil = ''alice''"
  "m_transferId offer_nil = ''xfer_nil''" "m_transferId chunk_nil = ''xfer_nil''"
  "m_transferId complete_nil = ''xfer_nil''"
  "m_from offer_nil = ''bob''" "m_from chunk_nil = ''bob''" "m_from complete_nil = ''bob''"
  "m_payload offer_nil = OfferP \<lparr> o_filename = ''e.txt'', o_size = 0, o_mimeType = ''text/plain'',
               o_hash = digest0 [], o_chunkSize = 2, o_totalChunks = 0,
               o_secret = Some ''s3cret'', o_secretTTL = None, o_resumeFrom = None \<rparr>"
  "m_payload chunk_nil = ChunkP \<lparr> ck_index = 0, ck_data = p_base64_encode platform0 [], ck_hash = digest0 [] \<rparr>"
  "m_payload complete_nil = CompleteP \<lparr> cp_totalChunks = 0, cp_hash = digest0 [] \<rparr>"
  by (simp_all add: offer_nil_def chunk_nil_def complete_nil_def createMessage_def)

lemma empty_file_fails_at_receiver:
  "map_option t_state
     (transfers (snd (deliver platform0 alice0 [(1, offer_nil), (2, chunk_nil), (3, complete_nil)]))
        ''xfer_nil'') = Some Failed"
  "map_option t_error
     (transfers (snd (deliver platform0 alice0 [(1, offer_nil), (2, chunk_nil), (3, complete_nil)]))
        ''xfer_nil'') = Some (Some (AssembleFailed (MissingChunks [])))"
proof -
  define s1 where "s1 = snd (handleDecoded platform0 1 alice0 offer_nil)"
  define s2 where "s2 = snd (handleDecoded platform0 2 s1 chunk_nil)"
  define s3 where "s3 = snd (handleDecoded platform0 3 s2 complete_nil)"
  have d: "snd (deliver platform0 alice0 [(1, offer_nil), (2, chunk_nil), (3, complete_nil)]) = s3"
    by (simp add: s3_def s2_def s1_def split: prod.splits)
  define t1 where "t1 = \<lparr> t_id = ''xfer_nil'', t_direction = Receive, t_state = Accepted,
       t_peerId = ''bob'', t_filename = ''e.txt'', t_size = 0, t_mimeType = ''text/plain'',
       t_hash = digest0 [], t_chunkSize = 2, t_totalChunks = 0, t_receivedChunks = {||},
       t_startedAt = 1, t_updatedAt = 1, t_completedAt = None, t_error = None,
       t_localPath = Some ''dl/e.txt'', t_resumable = True \<rparr>"
  have s1: "transfers s1 ''xfer_nil'' = Some t1"
    "assemblers s1 ''xfer_nil'' = Some (newChunkAssembler ''dl/e.txt'' (digest0 []) 0)"
    "config s1 = config0"
    unfolding s1_def t1_def
    by (simp_all add: handleDecoded_def nil_simps alice0_simps config0_simps handleOffer_def
        isValidSecret_def acceptTransfer_def Let_def emit_def send_def)
  have s2: "\<exists>t. transfers s2 ''xfer_nil'' = Some t \<and> t_direction t = Receive"
    "assemblers s2 ''xfer_nil'' =
       Some ((newChunkAssembler ''dl/e.txt'' (digest0 []) 0)\<lparr> a_chunks := fmupd 0 [] fmempty \<rparr>)"
    "config s2 = config0"
    unfolding s2_def
    by (simp_all add: handleDecoded_def nil_simps s1 config0_simps handleChunk_def addChunk_def
        Let_def emit_def send_def t1_def platform0_def newChunkAssembler_def)
  obtain t2 where t2: "transfers s2 ''xfer_nil'' = Some t2" "t_direction t2 = Receive"
    using s2(1) by blast
  have inc: "\<not> isComplete ((newChunkAssembler ''dl/e.txt'' (digest0 []) 0)\<lparr> a_chunks := fmupd 0 [] fmempty \<rparr>)"
    by (simp add: isComplete_def chunks_size_def newChunkAssembler_def fcard_finsert_if fcard_fempty)
  have mis: "getMissingChunks ((newChunkAssembler ''dl/e.txt'' (digest0 []) 0)\<lparr> a_chunks := fmupd 0 [] fmempty \<rparr>) = []"
    by (simp add: getMissingChunks_def missing_loop.simps newChunkAssembler_def)
  have s3: "transfers s3 ''xfer_nil'' =
      Some (t2\<lparr> t_state := Failed, t_error := Some (AssembleFailed (MissingChunks [])), t_updatedAt := 3 \<rparr>)"
    unfolding s3_def
    by (simp add: handleDecoded_def nil_simps s2 t2 config0_simps handleComplete_def
        assemble_incomplete [OF inc] mis Let_def emit_def send_def)
  show "map_option t_state
     (transfers (snd (deliver platform0 alice0 [(1, offer_nil), (2, chunk_nil), (3, complete_nil)]))
        ''xfer_nil'') = Some Failed"
    unfolding d s3 by simp
  show "map_option t_error
     (transfers (snd (deliver platform0 alice0 [(1, offer_nil), (2, chunk_nil), (3, complete_nil)]))
        ''xfer_nil'') = Some (Some (AssembleFailed (MissingChunks [])))"
    unfolding d s3 by simp
qed

subsection \<open>Acks after completion\<close>

text \<open>
  Claim C6, as the code has it. For a transfer of direction \<open>send\<close> in state
  \<open>completing\<close> or \<open>completed\<close>, an ack with index \<open>-1\<close> sets the state to
  \<open>completed\<close> and records \<open>completedAt\<close>; any other ack leaves the whole state
  unchanged. In both cases nothing is sent and \<open>receivedChunks\<close> does not change.
\<close>

theorem handleAck_after_completing:
  assumes "transfers s (m_transferId msg) = Some t" and "t_direction t = Send"
    and "t_state t = Completing \<or> t_state t = Completed"
  shows "handleAck P now s msg payload =
           (None,
            if ak_index payload = - 1
            then emit (TransferCompleted (m_transferId msg))
                   (s\<lparr> transfers := (transfers s)(m_transferId msg \<mapsto>
                          t\<lparr> t_state := Completed, t_completedAt := Some now \<rparr>) \<rparr>)
            else s)
     \<and> sentMessages (snd (handleAck P now s msg payload)) = sentMessages s
     \<and> map_option t_receivedChunks (transfers (snd (handleAck P now s msg payload)) (m_transferId msg))
         = Some (t_receivedChunks t)"
  using assms by (auto simp add: handleAck_def Let_def emit_def)

theorem handleAck_after_completing_witness:
  "map_option t_state (transfers alice_completing ''xfer_one'') = Some Completing
   \<and> handleAck platform0 8 alice_completing (final_ack 0)
        \<lparr> ak_index = 0, ak_received = True, ak_error = None \<rparr> = (None, alice_completing)
   \<and> map_option t_state
        (transfers (snd (handleAck platform0 8 alice_completing (final_ack (- 1))
                           \<lparr> ak_index = - 1, ak_received = True, ak_error = None \<rparr>)) ''xfer_one'')
       = Some Completed
   \<and> map_option t_completedAt
        (transfers (snd (handleAck platform0 8 alice_completing (final_ack (- 1))
                           \<lparr> ak_index = - 1, ak_received = True, ak_error = None \<rparr>)) ''xfer_one'')
       = Some (Some 8)
   \<and> sentMessages (snd (handleAck platform0 8 alice_completing (final_ack (- 1))
                           \<lparr> ak_index = - 1, ak_received = True, ak_error = None \<rparr>))
       = sentMessages alice_completing"
proof -
  let ?t = "transfer_one\<lparr> t_state := Completing, t_updatedAt := 3, t_receivedChunks := {|0|} \<rparr>"
  have 1: "transfers alice_completing (m_transferId (final_ack i)) = Some ?t" for i
    by (simp add: final_ack_def createMessage_def alice_completing_simps)
  have 2: "t_direction ?t = Send" by (simp add: transfer_one_def)
  have 3: "t_state ?t = Completing \<or> t_state ?t = Completed" by simp
  have id: "m_transferId (final_ack i) = ''xfer_one''" for i
    by (simp add: final_ack_def createMessage_def)
  show ?thesis
    using handleAck_after_completing [OF 1 2 3, where P = platform0 and now = 8
        and payload = "\<lparr> ak_index = 0, ak_received = True, ak_error = None \<rparr>", of 0]
      handleAck_after_completing [OF 1 2 3, where P = platform0 and now = 8
        and payload = "\<lparr> ak_index = - 1, ak_received = True, ak_error = None \<rparr>", of "- 1"]
    by (simp add: id alice_completing_simps emit_def)
qed

text \<open>
  The transfer below has failed (an error message arrived). An ack for index 0 is still
  processed: the index is recorded and chunk 1 is sent.
\<close>

theorem handleAck_failed_counterexample:
  "map_option t_state (transfers alice_failed ''xfer_abc'') = Some Failed
   \<and> map_option t_receivedChunks (transfers alice_failed ''xfer_abc'') = Some {||}
   \<and> map_option t_receivedChunks
        (transfers (snd (handleAck platform0 4 alice_failed (ack_from_bob 0)
                           \<lparr> ak_index = 0, ak_received = True, ak_error = None \<rparr>)) ''xfer_abc'')
       = Some {|0|}
   \<and> map (\<lambda>(receiver, m). (receiver, m_payload m))
         (sentMessages (snd (handleAck platform0 4 alice_failed (ack_from_bob 0)
                           \<lparr> ak_index = 0, ak_received = True, ak_error = None \<rparr>))) =
       map (\<lambda>(receiver, m). (receiver, m_payload m)) (sentMessages alice_failed) @
         [(''bob'', ChunkP \<lparr> ck_index = 1, ck_data = p_base64_encode platform0 [3, 4],
                             ck_hash = digest0 [3, 4] \<rparr>)]"
proof -
  let ?t = "transfer_abc\<lparr> t_state := Failed, t_error := Some (Text ''gone''), t_updatedAt := 2 \<rparr>"
  let ?p = "\<lparr> ak_index = 0, ak_received = True, ak_error = None \<rparr>"
  have 1: "transfers alice_failed (m_transferId (ack_from_bob 0)) = Some ?t"
    by (simp add: from_bob_simps alice_failed_simps)
  have 2: "t_direction ?t = Send" by (simp add: transfer_abc_simps)
  have 3: "t_state ?t \<noteq> Completed \<and> t_state ?t \<noteq> Completing" by simp
  have 4: "ak_received ?p" by simp
  have 5: "ak_index ?p + 1 < t_totalChunks ?t" by (simp add: transfer_abc_simps)
  have 6: "filePaths alice_failed (m_transferId (ack_from_bob 0)) = Some ''d/a.txt''"
    by (simp add: from_bob_simps alice_failed_simps)
  have 7: "''d/a.txt'' \<noteq> []" by simp
  have 8: "disk alice_failed ''d/a.txt'' = Some [1, 2, 3, 4, 5]"
    by (simp add: alice_failed_simps disk0_def)
  note step = handleAck_next [OF 1 2 3 4 5 6 7 8, of platform0 4]
  have a: "map_option t_state (transfers alice_failed ''xfer_abc'') = Some Failed"
    and b: "map_option t_receivedChunks (transfers alice_failed ''xfer_abc'') = Some {||}"
    by (simp_all add: alice_failed_simps transfer_abc_simps)
  have c: "map_option t_receivedChunks
        (transfers (snd (handleAck platform0 4 alice_failed (ack_from_bob 0) ?p)) ''xfer_abc'')
       = Some {|0|}"
    unfolding step by (simp add: emit_def send_def from_bob_simps transfer_abc_simps)
  have d: "map (\<lambda>(receiver, m). (receiver, m_payload m))
         (sentMessages (snd (handleAck platform0 4 alice_failed (ack_from_bob 0) ?p))) =
       map (\<lambda>(receiver, m). (receiver, m_payload m)) (sentMessages alice_failed) @
         [(''bob'', ChunkP \<lparr> ck_index = 1, ck_data = p_base64_encode platform0 [3, 4],
                             ck_hash = digest0 [3, 4] \<rparr>)]"
    unfolding step
    by (simp add: emit_def send_def createMessage_def transfer_abc_simps pieces_abc platform0_def)
  show ?thesis using a b c d by simp
qed

subsection \<open>Auto-accept by secret\<close>

text \<open>
  Claim C5, as the code has it. For an offer within the size limit: if its secret is the
  node's secret, that secret is not empty, and its TTL is absent, zero, or not earlier
  than the current time, the transfer is accepted at once (state \<open>accepted\<close>, one
  accept message sent). If the secret differs, or is empty, or the TTL is present,
  non-zero and earlier than the current time, and legacy auto-accept is off, the transfer
  stays \<open>pending\<close> and nothing is sent.
\<close>

theorem handleOffer_auto_accept:
  assumes "\<not> (case cfg_maxFileSize (config s) of
                 None \<Rightarrow> False
               | Some m \<Rightarrow> if m = 0 then False else o_size payload > m)"
  shows "(o_secret payload = Some (cfg_secret (config s)) \<and> cfg_secret (config s) \<noteq> []
          \<and> (\<forall>ttl. o_secretTTL payload = Some ttl \<longrightarrow> ttl = 0 \<or> now \<le> ttl)
         \<longrightarrow> fst (handleOffer now s msg payload) = None
           \<and> map_option t_state (transfers (snd (handleOffer now s msg payload)) (m_transferId msg))
               = Some Accepted
           \<and> sentMessages (snd (handleOffer now s msg payload)) =
               sentMessages s @
                [(m_from msg,
                  createMessage (m_transferId msg) (cfg_botId (config s)) (m_from msg)
                    (AcceptP \<lparr> ac_ready = True, ac_resumeFrom = o_resumeFrom payload \<rparr>) now)])
     \<and> ((o_secret payload \<noteq> Some (cfg_secret (config s)) \<or> cfg_secret (config s) = []
           \<or> (\<exists>ttl. o_secretTTL payload = Some ttl \<and> ttl \<noteq> 0 \<and> ttl < now))
          \<and> \<not> cfg_autoAccept (config s)
         \<longrightarrow> fst (handleOffer now s msg payload) = None
           \<and> map_option t_state (transfers (snd (handleOffer now s msg payload)) (m_transferId msg))
               = Some Pending
           \<and> sentMessages (snd (handleOffer now s msg payload)) = sentMessages s)"
proof (intro conjI impI)
  assume a: "o_secret payload = Some (cfg_secret (config s)) \<and> cfg_secret (config s) \<noteq> []
          \<and> (\<forall>ttl. o_secretTTL payload = Some ttl \<longrightarrow> ttl = 0 \<or> now \<le> ttl)"
  then have v: "isValidSecret (config s) now (o_secret payload) (o_secretTTL payload)"
    by (auto simp add: isValidSecret_def split: option.splits)
  show "fst (handleOffer now s msg payload) = None"
    using assms v by (simp add: handleOffer_def Let_def acceptTransfer_def emit_def send_def)
  show "map_option t_state (transfers (snd (handleOffer now s msg payload)) (m_transferId msg))
               = Some Accepted"
    using assms v by (simp add: handleOffer_def Let_def acceptTransfer_def emit_def send_def)
  show "sentMessages (snd (handleOffer now s msg payload)) =
               sentMessages s @
                [(m_from msg,
                  createMessage (m_transferId msg) (cfg_botId (config s)) (m_from msg)
                    (AcceptP \<lparr> ac_ready = True, ac_resumeFrom = o_resumeFrom payload \<rparr>) now)]"
    using assms v by (simp add: handleOffer_def Let_def acceptTransfer_def emit_def send_def)
next
  assume b: "(o_secret payload \<noteq> Some (cfg_secret (config s)) \<or> cfg_secret (config s) = []
           \<or> (\<exists>ttl. o_secretTTL payload = Some ttl \<and> ttl \<noteq> 0 \<and> ttl < now))
          \<and> \<not> cfg_autoAccept (config s)"
  then have v: "\<not> isValidSecret (config s) now (o_secret payload) (o_secretTTL payload)"
    by (auto simp add: isValidSecret_def split: option.splits)
  from b have n: "\<not> cfg_autoAccept (config s)" by simp
  show "fst (handleOffer now s msg payload) = None"
    using assms v n by (simp add: handleOffer_def Let_def emit_def)
  show "map_option t_state (transfers (snd (handleOffer now s msg payload)) (m_transferId msg))
               = Some Pending"
    using assms v n by (simp add: handleOffer_def Let_def emit_def)
  show "sentMessages (snd (handleOffer now s msg payload)) = sentMessages s"
    using assms v n by (simp add: handleOffer_def Let_def emit_def)
qed

theorem handleOffer_auto_accept_witness:
  "map_option t_state
     (transfers (snd (handleOffer 1000 alice0 (offer_from_bob (Some ''s3cret'') (Some 2000))
                        (offer_b1 (Some ''s3cret'') (Some 2000)))) ''xfer_b1'') = Some Accepted
   \<and> map_option t_state
     (transfers (snd (handleOffer 1000 alice0 (offer_from_bob (Some ''guess'') (Some 2000))
                        (offer_b1 (Some ''guess'') (Some 2000)))) ''xfer_b1'') = Some Pending
   \<and> map_option t_state
     (transfers (snd (handleOffer 1000 alice0 (offer_from_bob (Some ''s3cret'') (Some 999))
                        (offer_b1 (Some ''s3cret'') (Some 999)))) ''xfer_b1'') = Some Pending"
proof -
  have size: "\<not> (case cfg_maxFileSize (config alice0) of
                 None \<Rightarrow> False
               | Some m \<Rightarrow> if m = 0 then False else o_size (offer_b1 sec ttl) > m)" for sec ttl
    by (simp add: alice0_simps config0_simps offer_b1_simps)
  show ?thesis
    using handleOffer_auto_accept [OF size, of "Some ''s3cret''" "Some 2000" 1000
            "offer_from_bob (Some ''s3cret'') (Some 2000)"]
      handleOffer_auto_accept [OF size, of "Some ''guess''" "Some 2000" 1000
            "offer_from_bob (Some ''guess'') (Some 2000)"]
      handleOffer_auto_accept [OF size, of "Some ''s3cret''" "Some 999" 1000
            "offer_from_bob (Some ''s3cret'') (Some 999)"]
    by (simp add: alice0_simps config0_simps offer_b1_simps offer_from_bob_simps)
qed

text \<open>
  The secret matches, the TTL equals the current time (so it is not strictly later),
  and legacy auto-accept is off: the transfer is accepted, it does not stay pending.
\<close>

theorem handleOffer_ttl_now_counterexample:
  "o_secret (offer_b1 (Some ''s3cret'') (Some 1000)) = Some (cfg_secret (config alice0))
   \<and> o_secretTTL (offer_b1 (Some ''s3cret'') (Some 1000)) = Some 1000
   \<and> \<not> cfg_autoAccept (config alice0)
   \<and> map_option t_state
        (transfers (snd (handleOffer 1000 alice0 (offer_from_bob (Some ''s3cret'') (Some 1000))
                           (offer_b1 (Some ''s3cret'') (Some 1000)))) ''xfer_b1'') = Some Accepted"
  by (simp add: handleOffer_def isValidSecret_def acceptTransfer_def alice0_simps config0_simps
      offer_b1_simps offer_from_bob_simps Let_def emit_def send_def)

subsection \<open>The size of receivedChunks\<close>

lemma chunks_in_range_fields [simp]:
  "chunks_in_range (t\<lparr> t_state := st \<rparr>) = chunks_in_range t"
  "chunks_in_range (t\<lparr> t_updatedAt := u \<rparr>) = chunks_in_range t"
  "chunks_in_range (t\<lparr> t_completedAt := c \<rparr>) = chunks_in_range t"
  "chunks_in_range (t\<lparr> t_error := e \<rparr>) = chunks_in_range t"
  "chunks_in_range (t\<lparr> t_localPath := l \<rparr>) = chunks_in_range t"
  "chunks_in_range (t\<lparr> t_resumable := r \<rparr>) = chunks_in_range t"
  by (simp_all add: chunks_in_range_def)

lemma chunks_in_range_insert:
  "chunks_in_range t \<Longrightarrow> 0 \<le> i \<Longrightarrow> i < t_totalChunks t \<Longrightarrow>
   chunks_in_range (t\<lparr> t_receivedChunks := finsert i (t_receivedChunks t) \<rparr>)"
  by (simp add: chunks_in_range_def)

lemma all_in_range_cong:
  "transfers s' = transfers s \<Longrightarrow> all_in_range s \<Longrightarrow> all_in_range s'"
  by (simp add: all_in_range_def)

lemma all_in_range_update:
  "all_in_range s \<Longrightarrow> chunks_in_range t \<Longrightarrow> transfers s' = (transfers s)(transferId \<mapsto> t) \<Longrightarrow>
   all_in_range s'"
  by (simp add: all_in_range_def)

lemma all_in_range_lookup:
  "all_in_range s \<Longrightarrow> transfers s transferId = Some t \<Longrightarrow> chunks_in_range t"
  by (auto simp add: all_in_range_def)

lemma transfers_send [simp]: "transfers (send r m s) = transfers s"
  by (simp add: send_def)

lemma transfers_emit [simp]: "transfers (emit e s) = transfers s"
  by (simp add: emit_def)

lemma acceptTransfer_in_range:
  "all_in_range s \<Longrightarrow> all_in_range (snd (acceptTransfer now s transferId resumeFrom))"
proof -
  assume inv: "all_in_range s"
  show ?thesis
  proof (cases "transfers s transferId")
    case None
    then show ?thesis using inv by (simp add: acceptTransfer_def)
  next
    case (Some t)
    have t: "chunks_in_range t" using inv Some by (rule all_in_range_lookup)
    show ?thesis
    proof (cases "t_direction t \<noteq> Receive \<or> t_state t \<noteq> Pending")
      case True
      then show ?thesis using inv Some by (simp add: acceptTransfer_def)
    next
      case False
      let ?t' = "t\<lparr> t_state := Accepted, t_updatedAt := now, t_resumable := True,
                    t_localPath := Some (cfg_downloadDir (config s) @ ''/'' @ t_filename t) \<rparr>"
      have "transfers (snd (acceptTransfer now s transferId resumeFrom)) = (transfers s)(transferId \<mapsto> ?t')"
        using Some False by (simp add: acceptTransfer_def Let_def)
      moreover have "chunks_in_range ?t'" using t by simp
      ultimately show ?thesis using inv all_in_range_update by blast
    qed
  qed
qed

lemma rejectTransfer_in_range:
  "all_in_range s \<Longrightarrow> all_in_range (snd (rejectTransfer now s transferId reason))"
proof -
  assume inv: "all_in_range s"
  show ?thesis
  proof (cases "transfers s transferId")
    case None
    then show ?thesis using inv by (simp add: rejectTransfer_def)
  next
    case (Some t)
    have t: "chunks_in_range t" using inv Some by (rule all_in_range_lookup)
    show ?thesis
    proof (cases "t_direction t \<noteq> Receive \<or> t_state t \<noteq> Pending")
      case True
      then show ?thesis using inv Some by (simp add: rejectTransfer_def)
    next
      case False
      let ?t' = "t\<lparr> t_state := Rejected, t_updatedAt := now, t_error := Some reason \<rparr>"
      have "transfers (snd (rejectTransfer now s transferId reason)) = (transfers s)(transferId \<mapsto> ?t')"
        using Some False by (simp add: rejectTransfer_def Let_def)
      moreover have "chunks_in_range ?t'" using t by simp
      ultimately show ?thesis using inv all_in_range_update by blast
    qed
  qed
qed

lemma handleOffer_in_range:
  assumes inv: "all_in_range s" and ok: "0 \<le> o_totalChunks p"
  shows "all_in_range (snd (handleOffer now s msg p))"
proof (cases "case cfg_maxFileSize (config s) of
                 None \<Rightarrow> False
               | Some m \<Rightarrow> if m = 0 then False else o_size p > m")
  case True
  then have "transfers (snd (handleOffer now s msg p)) = transfers s"
    by (simp add: handleOffer_def Let_def)
  then show ?thesis using inv by (rule all_in_range_cong)
next
  case False
  let ?t = "\<lparr> t_id = m_transferId msg, t_direction = Receive, t_state = Pending,
               t_peerId = m_from msg, t_filename = o_filename p,
               t_size = o_size p, t_mimeType = o_mimeType p,
               t_hash = o_hash p, t_chunkSize = o_chunkSize p,
               t_totalChunks = o_totalChunks p, t_receivedChunks = {||},
               t_startedAt = now, t_updatedAt = now, t_completedAt = None,
               t_error = None, t_localPath = None, t_resumable = False \<rparr>"
  let ?s' = "emit (OfferReceived (m_transferId msg))
               (s\<lparr> transfers := (transfers s)(m_transferId msg \<mapsto> ?t) \<rparr>)"
  have t: "chunks_in_range ?t" using ok by (simp add: chunks_in_range_def)
  have "transfers ?s' = (transfers s)(m_transferId msg \<mapsto> ?t)" by simp
  then have s': "all_in_range ?s'" using inv t all_in_range_update by blast
  have acc: "all_in_range (snd (acceptTransfer now ?s' (m_transferId msg) (o_resumeFrom p)))"
    using s' by (rule acceptTransfer_in_range)
  have "snd (handleOffer now s msg p) = ?s'
      \<or> snd (handleOffer now s msg p) = snd (acceptTransfer now ?s' (m_transferId msg) (o_resumeFrom p))"
    using False by (simp add: handleOffer_def Let_def split: option.splits)
  then show ?thesis using s' acc by auto
qed

lemma handleAccept_in_range:
  assumes inv: "all_in_range s"
  shows "all_in_range (snd (handleAccept P now s msg p))"
proof (cases "transfers s (m_transferId msg)")
  case None
  then show ?thesis using inv by (simp add: handleAccept_def)
next
  case (Some t)
  have t: "chunks_in_range t" using inv Some by (rule all_in_range_lookup)
  show ?thesis
  proof (cases "t_direction t = Send")
    case False
    then show ?thesis using inv Some by (simp add: handleAccept_def)
  next
    case True
    let ?t' = "t\<lparr> t_state := Transferring, t_updatedAt := now \<rparr>"
    have "transfers (snd (handleAccept P now s msg p)) = (transfers s)(m_transferId msg \<mapsto> ?t')"
      using Some True by (simp add: handleAccept_def Let_def sendNextChunk_transfers)
    moreover have "chunks_in_range ?t'" using t by simp
    ultimately show ?thesis using inv all_in_range_update by blast
  qed
qed

lemma handleReject_in_range:
  assumes inv: "all_in_range s"
  shows "all_in_range (snd (handleReject now s msg p))"
proof (cases "transfers s (m_transferId msg)")
  case None
  then show ?thesis using inv by (simp add: handleReject_def)
next
  case (Some t)
  have t: "chunks_in_range t" using inv Some by (rule all_in_range_lookup)
  let ?t' = "t\<lparr> t_state := Rejected, t_error := Some (rj_reason p), t_updatedAt := now \<rparr>"
  have "transfers (snd (handleReject now s msg p)) = (transfers s)(m_transferId msg \<mapsto> ?t')"
    using Some by (simp add: handleReject_def Let_def)
  moreover have "chunks_in_range ?t'" using t by simp
  ultimately show ?thesis using inv all_in_range_update by blast
qed

lemma handleError_in_range:
  assumes inv: "all_in_range s"
  shows "all_in_range (snd (handleError now s msg p))"
proof (cases "transfers s (m_transferId msg)")
  case None
  then show ?thesis using inv by (simp add: handleError_def)
next
  case (Some t)
  have t: "chunks_in_range t" using inv Some by (rule all_in_range_lookup)
  let ?t' = "t\<lparr> t_state := Failed, t_error := Some (er_message p), t_updatedAt := now \<rparr>"
  have "transfers (snd (handleError now s msg p)) = (transfers s)(m_transferId msg \<mapsto> ?t')"
    using Some by (simp add: handleError_def Let_def)
  moreover have "chunks_in_range ?t'" using t by simp
  ultimately show ?thesis using inv all_in_range_update by blast
qed

lemma handleChunk_in_range:
  assumes inv: "all_in_range s" and ok: "index_in_range s (m_transferId msg) (ck_index p)"
  shows "all_in_range (snd (handleChunk P now s msg p))"
proof (cases "transfers s (m_transferId msg)")
  case None
  then show ?thesis using inv by (simp add: handleChunk_def)
next
  case (Some t)
  have t: "chunks_in_range t" using inv Some by (rule all_in_range_lookup)
  have i: "0 \<le> ck_index p" "ck_index p < t_totalChunks t"
    using ok Some by (simp_all add: index_in_range_def)
  show ?thesis
  proof (cases "t_direction t = Receive \<and> assemblers s (m_transferId msg) \<noteq> None")
    case False
    then have "snd (handleChunk P now s msg p) = s"
      using Some by (auto simp add: handleChunk_def)
    then show ?thesis using inv by simp
  next
    case True
    then obtain a where a: "assemblers s (m_transferId msg) = Some a" by auto
    let ?ok = "fst (addChunk (p_sha256 P) a (ck_index p) (p_base64_decode P (ck_data p)) (ck_hash p))"
    let ?t' = "t\<lparr> t_state := Transferring,
                  t_receivedChunks := (if ?ok then finsert (ck_index p) (t_receivedChunks t)
                                       else t_receivedChunks t),
                  t_updatedAt := now \<rparr>"
    have "transfers (snd (handleChunk P now s msg p)) = (transfers s)(m_transferId msg \<mapsto> ?t')"
      using Some True a by (simp add: handleChunk_def Let_def split: prod.splits)
    moreover have "chunks_in_range ?t'"
      using t i by (simp add: chunks_in_range_def)
    ultimately show ?thesis using inv all_in_range_update by blast
  qed
qed

lemma handleAck_in_range:
  assumes inv: "all_in_range s"
    and ok: "\<not> ack_counts s (m_transferId msg) p \<or> index_in_range s (m_transferId msg) (ak_index p)"
  shows "all_in_range (snd (handleAck P now s msg p))"
proof (cases "transfers s (m_transferId msg)")
  case None
  then show ?thesis using inv by (simp add: handleAck_def)
next
  case (Some t)
  have t: "chunks_in_range t" using inv Some by (rule all_in_range_lookup)
  show ?thesis
  proof (cases "t_direction t = Send")
    case False
    then show ?thesis using inv Some by (simp add: handleAck_def)
  next
    case send: True
    show ?thesis
    proof (cases "t_state t = Completed \<or> t_state t = Completing")
      case True
      let ?t' = "t\<lparr> t_state := Completed, t_completedAt := Some now \<rparr>"
      have "transfers (snd (handleAck P now s msg p)) = transfers s
          \<or> transfers (snd (handleAck P now s msg p)) = (transfers s)(m_transferId msg \<mapsto> ?t')"
        using Some send True by (auto simp add: handleAck_def Let_def)
      moreover have "chunks_in_range ?t'" using t by simp
      ultimately show ?thesis using inv all_in_range_update all_in_range_cong by blast
    next
      case open_state: False
      show ?thesis
      proof (cases "ak_received p")
        case False
        then have "transfers (snd (handleAck P now s msg p)) = transfers s"
          using Some send open_state by (simp add: handleAck_def sendNextChunk_transfers)
        then show ?thesis using inv by (rule all_in_range_cong)
      next
        case True
        then have "ack_counts s (m_transferId msg) p"
          using Some send open_state by (simp add: ack_counts_def)
        then have i: "0 \<le> ak_index p" "ak_index p < t_totalChunks t"
          using ok Some by (simp_all add: index_in_range_def)
        let ?t' = "t\<lparr> t_receivedChunks := finsert (ak_index p) (t_receivedChunks t),
                      t_updatedAt := now \<rparr>"
        have t': "chunks_in_range ?t'" using t i by (simp add: chunks_in_range_def)
        have "transfers (snd (handleAck P now s msg p)) = (transfers s)(m_transferId msg \<mapsto> ?t')
          \<or> transfers (snd (handleAck P now s msg p)) =
               (transfers s)(m_transferId msg \<mapsto> ?t'\<lparr> t_state := Completing \<rparr>)"
          using Some send open_state True
          by (simp add: handleAck_def Let_def sendNextChunk_transfers)
        moreover have "chunks_in_range (?t'\<lparr> t_state := Completing \<rparr>)" using t' by simp
        ultimately show ?thesis using inv t' all_in_range_update by blast
      qed
    qed
  qed
qed

lemma handleComplete_in_range:
  assumes inv: "all_in_range s"
  shows "all_in_range (snd (handleComplete P now s msg p))"
proof (cases "transfers s (m_transferId msg)")
  case None
  then show ?thesis using inv by (simp add: handleComplete_def)
next
  case (Some t)
  have t: "chunks_in_range t" using inv Some by (rule all_in_range_lookup)
  show ?thesis
  proof (cases "t_direction t = Receive \<and> assemblers s (m_transferId msg) \<noteq> None")
    case False
    then have "snd (handleComplete P now s msg p) = s"
      using Some by (auto simp add: handleComplete_def)
    then show ?thesis using inv by simp
  next
    case True
    then obtain a where a: "assemblers s (m_transferId msg) = Some a" by auto
    obtain r fs' where asm: "assemble (p_sha256 P) a (disk s) = (r, fs')"
      by (cases "assemble (p_sha256 P) a (disk s)")
    have "\<exists>t'. transfers (snd (handleComplete P now s msg p)) = (transfers s)(m_transferId msg \<mapsto> t')
            \<and> chunks_in_range t'"
    proof (cases r)
      case (Inl e)
      let ?t' = "t\<lparr> t_state := Failed, t_error := Some (AssembleFailed e), t_updatedAt := now \<rparr>"
      have "transfers (snd (handleComplete P now s msg p)) = (transfers s)(m_transferId msg \<mapsto> ?t')"
        using Some True a Inl asm by (simp add: handleComplete_def Let_def)
      moreover have "chunks_in_range ?t'" using t by simp
      ultimately show ?thesis by blast
    next
      case (Inr u)
      let ?t' = "t\<lparr> t_state := Completed, t_completedAt := Some now, t_updatedAt := now \<rparr>"
      have "transfers (snd (handleComplete P now s msg p)) = (transfers s)(m_transferId msg \<mapsto> ?t')"
        using Some True a Inr asm by (simp add: handleComplete_def Let_def)
      moreover have "chunks_in_range ?t'" using t by simp
      ultimately show ?thesis by blast
    qed
    then show ?thesis using inv all_in_range_update by blast
  qed
qed

lemma handleDecoded_in_range:
  assumes inv: "all_in_range s" and ok: "call_ok s (HandleMessage now msg)"
  shows "all_in_range (snd (handleDecoded P now s msg))"
proof (cases "m_to msg \<noteq> cfg_botId (config s)")
  case True
  then show ?thesis using inv by (simp add: handleDecoded_def)
next
  case False
  then have to: "m_to msg = cfg_botId (config s)" by simp
  show ?thesis
  proof (cases "m_payload msg")
    case (OfferP p)
    then have "0 \<le> o_totalChunks p" using ok by (simp add: call_ok_def)
    then have "all_in_range (snd (handleOffer now s msg p))"
      using inv handleOffer_in_range by blast
    then show ?thesis
      using OfferP by (simp add: handleDecoded_snd [OF to])
  next
    case (AcceptP p)
    have "all_in_range (snd (handleAccept P now s msg p))"
      using inv by (rule handleAccept_in_range)
    then show ?thesis
      using AcceptP by (simp add: handleDecoded_snd [OF to])
  next
    case (RejectP p)
    have "all_in_range (snd (handleReject now s msg p))"
      using inv by (rule handleReject_in_range)
    then show ?thesis
      using RejectP by (simp add: handleDecoded_snd [OF to])
  next
    case (ChunkP p)
    then have "index_in_range s (m_transferId msg) (ck_index p)"
      using ok by (simp add: call_ok_def)
    then have "all_in_range (snd (handleChunk P now s msg p))"
      using inv handleChunk_in_range by blast
    then show ?thesis
      using ChunkP by (simp add: handleDecoded_snd [OF to])
  next
    case (AckP p)
    then have "\<not> ack_counts s (m_transferId msg) p \<or> index_in_range s (m_transferId msg) (ak_index p)"
      using ok by (simp add: call_ok_def)
    then have "all_in_range (snd (handleAck P now s msg p))"
      using inv handleAck_in_range by blast
    then show ?thesis
      using AckP by (simp add: handleDecoded_snd [OF to])
  next
    case (CompleteP p)
    have "all_in_range (snd (handleComplete P now s msg p))"
      using inv by (rule handleComplete_in_range)
    then show ?thesis
      using CompleteP by (simp add: handleDecoded_snd [OF to])
  next
    case (ErrorP p)
    have "all_in_range (snd (handleError now s msg p))"
      using inv by (rule handleError_in_range)
    then show ?thesis
      using ErrorP by (simp add: handleDecoded_snd [OF to])
  qed
qed

lemma ceil_div_size_nonneg: "0 < b \<Longrightarrow> 0 \<le> ceil_div (int n) b"
  by (simp add: ceil_div_nonneg)

lemma sendFile_in_range:
  assumes inv: "all_in_range s" and ok: "0 < cfg_chunkSize (config s)"
  shows "all_in_range (snd (sendFile P now nanoid s peerId filePath))"
proof (cases "disk s filePath")
  case None
  then have "snd (sendFile P now nanoid s peerId filePath) = s"
    by (simp add: sendFile_def getFileInfo_def)
  then show ?thesis using inv by simp
next
  case (Some bytes)
  then obtain info where info: "getFileInfo (p_sha256 P) (disk s) filePath (cfg_chunkSize (config s)) = Inr info"
    and tot: "fi_totalChunks info = ceil_div (int (length bytes)) (cfg_chunkSize (config s))"
    by (simp add: getFileInfo_def Let_def)
  let ?t = "\<lparr> t_id = ''xfer_'' @ nanoid, t_direction = Send, t_state = Pending,
               t_peerId = peerId, t_filename = fi_filename info,
               t_size = fi_size info, t_mimeType = fi_mimeType info,
               t_hash = fi_hash info, t_chunkSize = fi_chunkSize info,
               t_totalChunks = fi_totalChunks info, t_receivedChunks = {||},
               t_startedAt = now, t_updatedAt = now, t_completedAt = None,
               t_error = None, t_localPath = Some filePath, t_resumable = False \<rparr>"
  have "transfers (snd (sendFile P now nanoid s peerId filePath)) = (transfers s)(''xfer_'' @ nanoid \<mapsto> ?t)"
    using info by (simp add: sendFile_def Let_def)
  moreover have "chunks_in_range ?t"
    using tot ok by (simp add: chunks_in_range_def ceil_div_size_nonneg)
  ultimately show ?thesis using inv all_in_range_update by blast
qed

lemma resumeTransfer_in_range:
  assumes inv: "all_in_range s"
  shows "all_in_range (snd (resumeTransfer now s transferId))"
proof (cases "transfers s transferId")
  case None
  then show ?thesis using inv by (simp add: resumeTransfer_def)
next
  case (Some t)
  have t: "chunks_in_range t" using inv Some by (rule all_in_range_lookup)
  let ?s' = "s\<lparr> transfers := (transfers s)(transferId \<mapsto> t\<lparr> t_state := Pending \<rparr>) \<rparr>"
  have "transfers ?s' = (transfers s)(transferId \<mapsto> t\<lparr> t_state := Pending \<rparr>)" by simp
  moreover have "chunks_in_range (t\<lparr> t_state := Pending \<rparr>)" using t by simp
  ultimately have s': "all_in_range ?s'" using inv all_in_range_update by blast
  show ?thesis
  proof (cases "t_state t = Completed")
    case True
    then show ?thesis using inv Some by (simp add: resumeTransfer_def)
  next
    case False
    show ?thesis
    proof (cases "t_direction t = Receive")
      case True
      have "snd (resumeTransfer now s transferId)
              = snd (acceptTransfer now ?s' transferId (Some (lastIndex (t_receivedChunks t) + 1)))"
        using Some False True by (simp add: resumeTransfer_def Let_def)
      then show ?thesis using s' acceptTransfer_in_range by simp
    next
      case sender: False
      have "snd (resumeTransfer now s transferId) = s
          \<or> transfers (snd (resumeTransfer now s transferId)) = transfers ?s'"
        using Some False sender
        by (simp add: resumeTransfer_def Let_def split: option.splits)
      then show ?thesis
      proof
        assume "snd (resumeTransfer now s transferId) = s"
        then show ?thesis using inv by simp
      next
        assume "transfers (snd (resumeTransfer now s transferId)) = transfers ?s'"
        then show ?thesis using s' by (rule all_in_range_cong)
      qed
    qed
  qed
qed

lemma step_in_range:
  "all_in_range s \<Longrightarrow> call_ok s c \<Longrightarrow> all_in_range (step P s c)"
proof (cases c)
  case (HandleMessage now msg)
  assume "all_in_range s" "call_ok s c"
  then show ?thesis using HandleMessage handleDecoded_in_range by (simp add: step_def)
next
  case (SendFile now nanoid peerId filePath)
  assume "all_in_range s" "call_ok s c"
  then show ?thesis
    using SendFile sendFile_in_range by (simp add: step_def call_ok_def)
next
  case (AcceptTransfer now transferId resumeFrom)
  assume "all_in_range s" "call_ok s c"
  then show ?thesis using AcceptTransfer acceptTransfer_in_range by (simp add: step_def)
next
  case (RejectTransfer now transferId reason)
  assume "all_in_range s" "call_ok s c"
  then show ?thesis using RejectTransfer rejectTransfer_in_range by (simp add: step_def)
next
  case (ResumeTransfer now transferId)
  assume "all_in_range s" "call_ok s c"
  then show ?thesis using ResumeTransfer resumeTransfer_in_range by (simp add: step_def)
qed

lemma run_in_range:
  "all_in_range s \<Longrightarrow> run_ok P s calls \<Longrightarrow> all_in_range (run P s calls)"
proof (induction calls arbitrary: s)
  case Nil
  then show ?case by simp
next
  case (Cons c calls)
  then have "all_in_range (step P s c)" and "run_ok P (step P s c) calls"
    using step_in_range by simp_all
  then show ?case using Cons.IH by simp
qed

lemma chunks_in_range_card:
  assumes "chunks_in_range t"
  shows "int (fcard (t_receivedChunks t)) \<le> t_totalChunks t"
proof -
  have sub: "fset (t_receivedChunks t) \<subseteq> {0 ..< t_totalChunks t}"
    using assms by (auto simp add: chunks_in_range_def)
  have "card (fset (t_receivedChunks t)) \<le> card {0 ..< t_totalChunks t}"
    using sub by (intro card_mono) simp_all
  then have "fcard (t_receivedChunks t) \<le> nat (t_totalChunks t)"
    by (simp add: fcard.rep_eq)
  moreover have "0 \<le> t_totalChunks t" using assms by (simp add: chunks_in_range_def)
  ultimately show ?thesis by linarith
qed

text \<open>
  Claim C3, as the code has it. Start from a new manager and make any list of calls
  (handled messages and local calls) in which every offer announces a non-negative number
  of chunks, every chunk message and every ack that counts carries an index in
  \<open>[0, totalChunks)\<close> of its transfer, and \<open>sendFile\<close> runs with a positive chunk
  size. Then every tracked transfer has at most \<open>totalChunks\<close> elements in
  \<open>receivedChunks\<close>.
\<close>

theorem receivedChunks_bounded:
  assumes "run_ok P (newTransferManager cfg fs) calls"
    and "transfers (run P (newTransferManager cfg fs) calls) transferId = Some t"
  shows "int (fcard (t_receivedChunks t)) \<le> t_totalChunks t"
proof -
  have "all_in_range (newTransferManager cfg fs)"
    by (simp add: all_in_range_def newTransferManager_def)
  then have "all_in_range (run P (newTransferManager cfg fs) calls)"
    using assms(1) by (rule run_in_range)
  then have "chunks_in_range t" using assms(2) by (rule all_in_range_lookup)
  then show ?thesis by (rule chunks_in_range_card)
qed

lemma run_append: "run P s (xs @ ys) = run P (run P s xs) ys"
  by (induction xs arbitrary: s) simp_all

lemma handleChunk_stores:
  assumes "transfers s (m_transferId msg) = Some t" and "t_direction t = Receive"
    and "assemblers s (m_transferId msg) = Some a"
    and "p_sha256 P (p_base64_decode P (ck_data p)) = ck_hash p"
  shows "transfers (snd (handleChunk P now s msg p)) =
           (transfers s)(m_transferId msg \<mapsto>
              t\<lparr> t_state := Transferring,
                 t_receivedChunks := finsert (ck_index p) (t_receivedChunks t),
                 t_updatedAt := now \<rparr>)"
    and "assemblers (snd (handleChunk P now s msg p)) (m_transferId msg) \<noteq> None"
    and "config (snd (handleChunk P now s msg p)) = config s"
  using assms by (simp_all add: handleChunk_def addChunk_def Let_def emit_def send_def)

lemma step_chunk_from_bob:
  assumes "transfers s ''xfer_b1'' = Some t" and "t_direction t = Receive"
    and "assemblers s ''xfer_b1'' \<noteq> None" and "config s = config0"
  shows "transfers (step platform0 s (HandleMessage now (chunk_from_bob i))) ''xfer_b1'' =
           Some (t\<lparr> t_state := Transferring,
                   t_receivedChunks := finsert i (t_receivedChunks t),
                   t_updatedAt := now \<rparr>)"
    and "assemblers (step platform0 s (HandleMessage now (chunk_from_bob i))) ''xfer_b1'' \<noteq> None"
    and "config (step platform0 s (HandleMessage now (chunk_from_bob i))) = config0"
proof -
  obtain a where a: "assemblers s (m_transferId (chunk_from_bob i)) = Some a"
    using assms(3) by (auto simp add: chunk_from_bob_simps)
  let ?p = "\<lparr> ck_index = i, ck_data = ''x'',
              ck_hash = p_sha256 platform0 (p_base64_decode platform0 ''x'') \<rparr>"
  have t: "transfers s (m_transferId (chunk_from_bob i)) = Some t"
    using assms(1) by (simp add: chunk_from_bob_simps)
  have h: "p_sha256 platform0 (p_base64_decode platform0 (ck_data ?p)) = ck_hash ?p" by simp
  have to: "m_to (chunk_from_bob i) = cfg_botId (config s)"
    using assms(4) by (simp add: chunk_from_bob_simps config0_simps)
  have st: "step platform0 s (HandleMessage now (chunk_from_bob i))
              = snd (handleChunk platform0 now s (chunk_from_bob i) ?p)"
    by (simp add: step_def handleDecoded_snd [OF to] chunk_from_bob_simps)
  note r = handleChunk_stores [OF t assms(2) a h, of now]
  show "transfers (step platform0 s (HandleMessage now (chunk_from_bob i))) ''xfer_b1'' =
           Some (t\<lparr> t_state := Transferring,
                   t_receivedChunks := finsert i (t_receivedChunks t),
                   t_updatedAt := now \<rparr>)"
    unfolding st r(1) by (simp add: chunk_from_bob_simps)
  show "assemblers (step platform0 s (HandleMessage now (chunk_from_bob i))) ''xfer_b1'' \<noteq> None"
    unfolding st using r(2) by (simp add: chunk_from_bob_simps)
  show "config (step platform0 s (HandleMessage now (chunk_from_bob i))) = config0"
    unfolding st r(3) using assms(4) .
qed

lemma after_offer:
  "\<exists>t. transfers (step platform0 alice0 (HandleMessage 1000 (offer_from_bob (Some ''s3cret'') None)))
          ''xfer_b1'' = Some t
       \<and> t_direction t = Receive \<and> t_totalChunks t = 2 \<and> t_receivedChunks t = {||}"
  "assemblers (step platform0 alice0 (HandleMessage 1000 (offer_from_bob (Some ''s3cret'') None)))
          ''xfer_b1'' \<noteq> None"
  "config (step platform0 alice0 (HandleMessage 1000 (offer_from_bob (Some ''s3cret'') None))) = config0"
proof -
  have to: "m_to (offer_from_bob (Some ''s3cret'') None) = cfg_botId (config alice0)"
    by (simp add: offer_from_bob_simps alice0_simps config0_simps)
  have st: "step platform0 alice0 (HandleMessage 1000 (offer_from_bob (Some ''s3cret'') None))
      = snd (handleOffer 1000 alice0 (offer_from_bob (Some ''s3cret'') None)
               (offer_b1 (Some ''s3cret'') None))"
    by (simp add: step_def handleDecoded_snd [OF to] offer_from_bob_simps)
  show "\<exists>t. transfers (step platform0 alice0 (HandleMessage 1000 (offer_from_bob (Some ''s3cret'') None)))
          ''xfer_b1'' = Some t
       \<and> t_direction t = Receive \<and> t_totalChunks t = 2 \<and> t_receivedChunks t = {||}"
    unfolding st
    by (simp add: handleOffer_def isValidSecret_def acceptTransfer_def alice0_simps config0_simps
        offer_b1_simps offer_from_bob_simps Let_def emit_def send_def)
  show "assemblers (step platform0 alice0 (HandleMessage 1000 (offer_from_bob (Some ''s3cret'') None)))
          ''xfer_b1'' \<noteq> None"
    unfolding st
    by (simp add: handleOffer_def isValidSecret_def acceptTransfer_def alice0_simps config0_simps
        offer_b1_simps offer_from_bob_simps Let_def emit_def send_def)
  show "config (step platform0 alice0 (HandleMessage 1000 (offer_from_bob (Some ''s3cret'') None))) = config0"
    unfolding st
    by (simp add: handleOffer_def isValidSecret_def acceptTransfer_def alice0_simps config0_simps
        offer_b1_simps offer_from_bob_simps Let_def emit_def send_def)
qed

lemma in_range_run:
  "run_ok platform0 alice0 in_range_calls"
  "\<exists>t. transfers (run platform0 alice0 in_range_calls) ''xfer_b1'' = Some t
       \<and> t_direction t = Receive \<and> t_totalChunks t = 2 \<and> t_receivedChunks t = {|1, 0|}"
  "assemblers (run platform0 alice0 in_range_calls) ''xfer_b1'' \<noteq> None"
  "config (run platform0 alice0 in_range_calls) = config0"
proof -
  define s1 where "s1 = step platform0 alice0 (HandleMessage 1000 (offer_from_bob (Some ''s3cret'') None))"
  define s2 where "s2 = step platform0 s1 (HandleMessage 1001 (chunk_from_bob 0))"
  define s3 where "s3 = step platform0 s2 (HandleMessage 1002 (chunk_from_bob 1))"
  obtain t1 where t1: "transfers s1 ''xfer_b1'' = Some t1" "t_direction t1 = Receive"
    "t_totalChunks t1 = 2" "t_receivedChunks t1 = {||}"
    using after_offer(1) unfolding s1_def by blast
  have a1: "assemblers s1 ''xfer_b1'' \<noteq> None" and c1: "config s1 = config0"
    using after_offer(2,3) unfolding s1_def by simp_all
  let ?t2 = "t1\<lparr> t_state := Transferring, t_receivedChunks := finsert 0 (t_receivedChunks t1),
                 t_updatedAt := 1001 \<rparr>"
  have t2: "transfers s2 ''xfer_b1'' = Some ?t2" and a2: "assemblers s2 ''xfer_b1'' \<noteq> None"
    and c2: "config s2 = config0"
    unfolding s2_def using step_chunk_from_bob [OF t1(1,2) a1 c1] by simp_all
  have d2: "t_direction ?t2 = Receive" using t1(2) by simp
  let ?t3 = "?t2\<lparr> t_state := Transferring, t_receivedChunks := finsert 1 (t_receivedChunks ?t2),
                  t_updatedAt := 1002 \<rparr>"
  have t3: "transfers s3 ''xfer_b1'' = Some ?t3" and a3: "assemblers s3 ''xfer_b1'' \<noteq> None"
    and c3: "config s3 = config0"
    unfolding s3_def using step_chunk_from_bob [OF t2 d2 a2 c2] by simp_all
  have r: "run platform0 alice0 in_range_calls = s3"
    by (simp add: in_range_calls_def s3_def s2_def s1_def)
  have ok0: "call_ok alice0 (HandleMessage 1000 (offer_from_bob (Some ''s3cret'') None))"
    by (simp add: call_ok_def offer_from_bob_simps offer_b1_simps)
  have ok1: "call_ok s1 (HandleMessage 1001 (chunk_from_bob 0))"
    using t1 by (simp add: call_ok_def chunk_from_bob_simps index_in_range_def)
  have ok2: "call_ok s2 (HandleMessage 1002 (chunk_from_bob 1))"
    using t2 t1(3) by (simp add: call_ok_def chunk_from_bob_simps index_in_range_def)
  show "run_ok platform0 alice0 in_range_calls"
    using ok0 ok1 ok2 by (simp add: in_range_calls_def s2_def s1_def)
  show "\<exists>t. transfers (run platform0 alice0 in_range_calls) ''xfer_b1'' = Some t
       \<and> t_direction t = Receive \<and> t_totalChunks t = 2 \<and> t_receivedChunks t = {|1, 0|}"
    unfolding r using t3 t1 by simp
  show "assemblers (run platform0 alice0 in_range_calls) ''xfer_b1'' \<noteq> None"
    unfolding r by (rule a3)
  show "config (run platform0 alice0 in_range_calls) = config0"
    unfolding r by (rule c3)
qed

theorem receivedChunks_bounded_witness:
  "run_ok platform0 (newTransferManager config0 disk0) in_range_calls
   \<and> (\<exists>t. transfers (run platform0 (newTransferManager config0 disk0) in_range_calls) ''xfer_b1'' = Some t
          \<and> t_receivedChunks t = {|1, 0|} \<and> t_totalChunks t = 2
          \<and> int (fcard (t_receivedChunks t)) \<le> t_totalChunks t)"
proof -
  have ok: "run_ok platform0 (newTransferManager config0 disk0) in_range_calls"
    using in_range_run(1) by (simp add: alice0_def)
  obtain t where t: "transfers (run platform0 (newTransferManager config0 disk0) in_range_calls) ''xfer_b1'' = Some t"
    and rc: "t_receivedChunks t = {|1, 0|}" and tot: "t_totalChunks t = 2"
    using in_range_run(2) by (auto simp add: alice0_def)
  show ?thesis
    using ok t rc tot receivedChunks_bounded [OF ok t] by simp
qed

text \<open>
  The offer announces two chunks and is accepted by its secret. The peer then sends
  chunks with the indices 0, 1 and 2, each with a correct hash: all three are recorded,
  so \<open>receivedChunks\<close> has three elements for \<open>totalChunks = 2\<close>.
\<close>

theorem receivedChunks_overrun_counterexample:
  "map_option t_totalChunks
     (transfers (run platform0 (newTransferManager config0 disk0) overrun_calls) ''xfer_b1'') = Some 2
   \<and> map_option (fcard \<circ> t_receivedChunks)
     (transfers (run platform0 (newTransferManager config0 disk0) overrun_calls) ''xfer_b1'') = Some 3"
proof -
  obtain t where t: "transfers (run platform0 alice0 in_range_calls) ''xfer_b1'' = Some t"
    "t_direction t = Receive" "t_totalChunks t = 2" "t_receivedChunks t = {|1, 0|}"
    using in_range_run(2) by blast
  have "transfers (run platform0 alice0 overrun_calls) ''xfer_b1'' =
          Some (t\<lparr> t_state := Transferring, t_receivedChunks := finsert 2 (t_receivedChunks t),
                  t_updatedAt := 1003 \<rparr>)"
    using step_chunk_from_bob(1) [OF t(1,2) in_range_run(3,4), of 1003 2]
    by (simp add: overrun_calls_def run_append)
  then show ?thesis
    using t(3,4) by (simp add: alice0_def fcard_finsert_if)
qed

end
